theory Spec2Isabelle
  imports Main "HOL-Library.Multiset" "HOL-Library.List_Lexorder" "HOL-Library.Product_Lexorder"
begin

section \<open>Values and library primitives\<close>

text \<open>
  The three scripts (\<^verbatim>\<open>add_user_id.py\<close>, \<^verbatim>\<open>query_responses.py\<close>,
  \<^verbatim>\<open>generate_template.py\<close>) work on what \<^verbatim>\<open>yaml.safe_load\<close> and
  \<^verbatim>\<open>pd.read_csv\<close> hand them. Reading and writing the YAML and CSV text is taken as
  given: a document is represented by the value it parses to, and a file written and read
  back by the value written.
\<close>

subsection \<open>Strings\<close>

text \<open>
  A Python \<^verbatim>\<open>str\<close> is a sequence of Unicode code points, so it is a list of numbers
  here; \<open>ascii\<close> turns a literal of this theory into such a list. The order of Python
  strings is the lexicographic order of these lists.
\<close>

type_synonym pystr = "nat list"

definition ascii :: "string \<Rightarrow> pystr" where
  "ascii s = map of_char s"

text \<open>
  \<^verbatim>\<open>str.strip()\<close> with no argument, and \<^verbatim>\<open>Series.str.strip()\<close>, remove leading and
  trailing whitespace: the code points for which \<^verbatim>\<open>str.isspace\<close> holds, which are
  U+0009 to U+000D, U+001C to U+0020, U+0085, U+00A0, U+1680, U+2000 to U+200A, U+2028,
  U+2029, U+202F, U+205F and U+3000.
\<close>

definition is_space :: "nat \<Rightarrow> bool" where
  "is_space c \<longleftrightarrow>
     c \<in> set [0x09, 0x0A, 0x0B, 0x0C, 0x0D, 0x1C, 0x1D, 0x1E, 0x1F, 0x20, 0x85, 0xA0,
              0x1680, 0x2000, 0x2001, 0x2002, 0x2003, 0x2004, 0x2005, 0x2006, 0x2007,
              0x2008, 0x2009, 0x200A, 0x2028, 0x2029, 0x202F, 0x205F, 0x3000]"

definition strip :: "pystr \<Rightarrow> pystr" where
  "strip s = rev (dropWhile is_space (rev (dropWhile is_space s)))"

subsection \<open>Python values loaded from YAML\<close>

text \<open>
  A float is kept as its printed text (no arithmetic is done on it). Dictionaries are
  association lists in insertion order; a key is represented by its \<^verbatim>\<open>str()\<close> text.
\<close>

datatype pyval =
    PNone
  | PBool bool
  | PInt int
  | PFloat string
  | PStr pystr
  | PList "pyval list"
  | PDict "(pystr \<times> pyval) list"

text \<open>\<^verbatim>\<open>type(v).__name__\<close>\<close>

fun type_name :: "pyval \<Rightarrow> string" where
  "type_name PNone = ''NoneType''"
| "type_name (PBool _) = ''bool''"
| "type_name (PInt _) = ''int''"
| "type_name (PFloat _) = ''float''"
| "type_name (PStr _) = ''str''"
| "type_name (PList _) = ''list''"
| "type_name (PDict _) = ''dict''"

text \<open>\<^verbatim>\<open>isinstance(v, dict)\<close>\<close>

fun isinstance_dict :: "pyval \<Rightarrow> bool" where
  "isinstance_dict (PDict _) = True"
| "isinstance_dict _ = False"

text \<open>
  \<^verbatim>\<open>isinstance(v, int)\<close>. In Python \<^verbatim>\<open>bool\<close> is a subclass of \<^verbatim>\<open>int\<close>, so the test
  holds of \<^verbatim>\<open>True\<close> and \<^verbatim>\<open>False\<close> too, and they compare and hash as 1 and 0.
\<close>

fun isinstance_int :: "pyval \<Rightarrow> bool" where
  "isinstance_int (PInt _) = True"
| "isinstance_int (PBool _) = True"
| "isinstance_int _ = False"

fun int_of :: "pyval \<Rightarrow> int" where
  "int_of (PInt n) = n"
| "int_of (PBool b) = (if b then 1 else 0)"
| "int_of _ = 0"

text \<open>\<^verbatim>\<open>info.get(key)\<close>: the value stored under the key, \<^verbatim>\<open>None\<close> when there is none.\<close>

fun dict_get :: "pyval \<Rightarrow> pystr \<Rightarrow> pyval" where
  "dict_get (PDict d) k = (case map_of d k of None \<Rightarrow> PNone | Some v \<Rightarrow> v)"
| "dict_get _ k = PNone"

text \<open>
  \<^verbatim>\<open>d[k] = v\<close> on an insertion-ordered dictionary: an existing key keeps its place and
  takes the new value, a new key goes to the end.
\<close>

fun dict_set :: "('k \<times> 'v) list \<Rightarrow> 'k \<Rightarrow> 'v \<Rightarrow> ('k \<times> 'v) list" where
  "dict_set [] k v = [(k, v)]"
| "dict_set ((k', v') # d) k v =
     (if k' = k then (k, v) # d else (k', v') # dict_set d k v)"

subsection \<open>Data frames\<close>

text \<open>
  A cell of a data frame is missing (\<^verbatim>\<open>NaN\<close>) or holds a value, kept as its text.
\<close>

datatype cell = NaN | Text pystr

text \<open>\<^verbatim>\<open>pd.isna(c)\<close> and \<^verbatim>\<open>str(c)\<close>\<close>

fun isna :: "cell \<Rightarrow> bool" where
  "isna NaN = True"
| "isna (Text _) = False"

fun str :: "cell \<Rightarrow> pystr" where
  "str NaN = ascii ''nan''"
| "str (Text s) = s"

text \<open>
  A row of the survey table: the columns the scripts name (student number, name, and the
  three free-text answers E1 to E3) and the remaining columns in order. The student number
  is held as the text \<^verbatim>\<open>astype(str)\<close> gives.
\<close>

record survey_row =
  student_id :: pystr
  name :: cell
  e1 :: cell
  e2 :: cell
  e3 :: cell
  rest :: "cell list"

text \<open>A row of the joined table: the user number column, then the survey columns.\<close>

record joined_row =
  user_no :: int
  base :: survey_row

text \<open>
  \<^verbatim>\<open>Series.unique()\<close> and \<^verbatim>\<open>DataFrame.drop_duplicates()\<close>: the first occurrence of
  each value, in order of appearance.
\<close>

fun drop_duplicates :: "'a list \<Rightarrow> 'a list" where
  "drop_duplicates [] = []"
| "drop_duplicates (x # xs) = x # drop_duplicates (filter (\<lambda>y. y \<noteq> x) xs)"

text \<open>
  \<^verbatim>\<open>df.sort_values(col)\<close> returns the rows in ascending order of the column \<open>col\<close>. The
  scripts call it with the default \<^verbatim>\<open>kind='quicksort'\<close>, for which pandas does not
  say in which order rows with equal keys come out (it does for \<^verbatim>\<open>kind='stable'\<close>): that
  is left to the sorting routine of numpy at hand. So the rows are ordered by their key
  first and, among equal keys, by a rank \<open>ties keys i\<close> that stands for what this routine
  does with the row at position \<open>i\<close> of the key column \<open>keys\<close>; rows that agree on both keep
  their order.
\<close>

definition sort_values :: "('k list \<Rightarrow> nat \<Rightarrow> nat) \<Rightarrow> ('a \<Rightarrow> 'k::linorder) \<Rightarrow> 'a list \<Rightarrow> 'a list" where
  "sort_values ties col df =
     map snd (sort_key (\<lambda>(i, r). (col r, ties (map col df) i)) (enumerate 0 df))"

text \<open>
  Iterating over \<^verbatim>\<open>set(xs)\<close> visits each distinct element once, in an order CPython does
  not specify. It is an argument \<open>set_iter\<close> of the function that iterates, with this
  contract.
\<close>

definition set_iter_ok :: "('a list \<Rightarrow> 'a list) \<Rightarrow> bool" where
  "set_iter_ok set_iter \<longleftrightarrow> (\<forall>xs. distinct (set_iter xs) \<and> set (set_iter xs) = set xs)"

section \<open>add\_user\_id.py\<close>

subsection \<open>load\_user\_mapping\<close>

text \<open>
  The four \<^verbatim>\<open>errors.append\<close> sites of the per-entry loop, each with the trimmed key:
  the entry is not a dictionary; \<^verbatim>\<open>user_id\<close> is absent or null; it is not an
  \<^verbatim>\<open>int\<close> (with the name of its type); it is outside 1 to 18 (with the value).
\<close>

datatype entry_error =
    Bad_format pystr
  | Not_set pystr
  | Not_integer pystr string
  | Out_of_range pystr pyval

text \<open>
  Every failure of the script is a \<^verbatim>\<open>ValueError\<close>; the constructors are its four
  messages, and the one pandas has for a missing value cast to an integer: the document is
  empty, \<open>n\<close> entries have errors, \<open>n\<close> user numbers are duplicated, \<open>n\<close> student
  numbers are not mapped.
\<close>

datatype message = Empty_yaml | N_errors nat | N_duplicates nat | N_unmapped nat | Nan_to_int

datatype error = ValueError message

text \<open>The lines printed, one constructor for each \<^verbatim>\<open>print\<close> statement.\<close>

datatype msg =
    P_reading_yaml
  | P_errors_header
  | P_error entry_error
  | P_dup_header
  | P_dup int "pystr list"
  | P_missing "int list"
  | P_recommend
  | P_loaded nat
  | P_reading_csv
  | P_adding
  | P_unmapped_header
  | P_unmapped pystr cell
  | P_sorting
  | P_saving
  | P_done
  | P_stats nat "int option" "int option"

text \<open>
  The loop over \<^verbatim>\<open>data.items()\<close>, with the dictionary \<^verbatim>\<open>user_mapping\<close> and the list
  \<^verbatim>\<open>errors\<close> it updates. Each \<^verbatim>\<open>continue\<close> is a recursive call with one more error.
\<close>

fun per_entry ::
  "(pystr \<times> pyval) list \<Rightarrow> (pystr \<times> int) list \<Rightarrow> entry_error list
     \<Rightarrow> (pystr \<times> int) list \<times> entry_error list" where
  "per_entry [] user_mapping errors = (user_mapping, errors)"
| "per_entry ((key, info) # items) user_mapping errors =
     (let student_id = strip key in
      if \<not> isinstance_dict info then
        per_entry items user_mapping (errors @ [Bad_format student_id])
      else
        let user_id = dict_get info (ascii ''user_id'') in
        if user_id = PNone then
          per_entry items user_mapping (errors @ [Not_set student_id])
        else if \<not> isinstance_int user_id then
          per_entry items user_mapping (errors @ [Not_integer student_id (type_name user_id)])
        else if int_of user_id < 1 \<or> int_of user_id > 18 then
          per_entry items user_mapping (errors @ [Out_of_range student_id user_id])
        else
          per_entry items (dict_set user_mapping student_id (int_of user_id)) errors)"

text \<open>\<^verbatim>\<open>[sid for sid, u in user_mapping.items() if u == uid]\<close>\<close>

definition students_of :: "(pystr \<times> int) list \<Rightarrow> int \<Rightarrow> pystr list" where
  "students_of user_mapping uid = map fst (filter (\<lambda>(sid, u). u = uid) user_mapping)"

text \<open>
  The function returns what it printed and either the error raised or the mapping. The
  argument is the list of items of the loaded document (empty when the document is).
\<close>

definition load_user_mapping ::
  "(int list \<Rightarrow> int list) \<Rightarrow> (pystr \<times> pyval) list
     \<Rightarrow> msg list \<times> (error + (pystr \<times> int) list)" where
  "load_user_mapping set_iter data =
     (if data = [] then ([P_reading_yaml], Inl (ValueError Empty_yaml))
      else
        let (user_mapping, errors) = per_entry data [] [] in
        if errors \<noteq> [] then
          ([P_reading_yaml, P_errors_header] @ map P_error errors,
           Inl (ValueError (N_errors (length errors))))
        else
          let user_ids = map snd user_mapping;
              duplicates = filter (\<lambda>uid. count_list user_ids uid > 1) (set_iter user_ids)
          in
          if duplicates \<noteq> [] then
            ([P_reading_yaml, P_dup_header]
               @ map (\<lambda>uid. P_dup uid (students_of user_mapping uid)) duplicates,
             Inl (ValueError (N_duplicates (length duplicates))))
          else
            let missing_ids = filter (\<lambda>i. i \<notin> set user_ids) [1..18] in
            ([P_reading_yaml]
               @ (if missing_ids \<noteq> [] then [P_missing missing_ids, P_recommend] else [])
               @ [P_loaded (length user_mapping)],
             Inr user_mapping))"

subsection \<open>add\_user\_id\_and\_sort\<close>

text \<open>
  \<^verbatim>\<open>Series.map(user_mapping)\<close> looks each student number up; a key that is not in the
  dictionary gives \<^verbatim>\<open>NaN\<close>, here \<open>None\<close>.
\<close>

definition map_column ::
  "(pystr \<times> int) list \<Rightarrow> survey_row list \<Rightarrow> (int option \<times> survey_row) list" where
  "map_column user_mapping df = map (\<lambda>r. (map_of user_mapping (student_id r), r)) df"

text \<open>\<^verbatim>\<open>astype(int)\<close> on the new column: it raises on a missing value.\<close>

fun astype_int :: "(int option \<times> survey_row) list \<Rightarrow> joined_row list option" where
  "astype_int [] = Some []"
| "astype_int ((None, r) # df) = None"
| "astype_int ((Some n, r) # df) =
     (case astype_int df of None \<Rightarrow> None
      | Some df' \<Rightarrow> Some (\<lparr>user_no = n, base = r\<rparr> # df'))"

text \<open>\<^verbatim>\<open>Series.min()\<close> and \<^verbatim>\<open>Series.max()\<close>, missing on an empty column.\<close>

fun col_min :: "int list \<Rightarrow> int option" where
  "col_min [] = None"
| "col_min (x # xs) = Some (fold min xs x)"

fun col_max :: "int list \<Rightarrow> int option" where
  "col_max [] = None"
| "col_max (x # xs) = Some (fold max xs x)"

text \<open>
  What a run of \<^verbatim>\<open>add_user_id_and_sort\<close> leaves behind: the lines printed, the table
  written to the output path (\<open>None\<close> when \<^verbatim>\<open>to_csv\<close> was not reached), and the error
  raised, if any.
\<close>

record run =
  printed :: "msg list"
  written :: "joined_row list option"
  raised :: "error option"

text \<open>
  The argument \<open>df\<close> is the table read from the input file. The \<open>None\<close> branch is
  \<^verbatim>\<open>astype(int)\<close> raising on a missing value; it is never taken, the unmapped rows being
  rejected before.
\<close>

definition add_user_id_and_sort ::
  "(int list \<Rightarrow> nat \<Rightarrow> nat) \<Rightarrow> survey_row list \<Rightarrow> (pystr \<times> int) list \<Rightarrow> run" where
  "add_user_id_and_sort ties df user_mapping =
     (let df = map (\<lambda>r. r\<lparr>student_id := strip (student_id r)\<rparr>) df;
          df = map_column user_mapping df;
          unmapped = filter (\<lambda>(u, r). u = None) df
      in
      if length unmapped > 0 then
        \<lparr>printed = [P_reading_csv, P_adding, P_unmapped_header]
                     @ map (\<lambda>(u, r). P_unmapped (student_id r) (name r)) unmapped,
         written = None,
         raised = Some (ValueError (N_unmapped (length unmapped)))\<rparr>
      else
        case astype_int df of
          None \<Rightarrow>
            \<lparr>printed = [P_reading_csv, P_adding], written = None,
             raised = Some (ValueError Nan_to_int)\<rparr>
        | Some df \<Rightarrow>
            let df = sort_values ties user_no df in
            \<lparr>printed = [P_reading_csv, P_adding, P_sorting, P_saving, P_done,
                        P_stats (length df) (col_min (map user_no df)) (col_max (map user_no df))],
             written = Some df,
             raised = None\<rparr>)"

section \<open>query\_responses.py\<close>

text \<open>The lines printed by \<^verbatim>\<open>get_user_responses\<close>.\<close>

datatype qmsg =
    Q_reading_csv
  | Q_not_found int
  | Q_valid "int list"
  | Q_rule
  | Q_user int
  | Q_name cell
  | Q_student_id pystr
  | Q_question nat
  | Q_dash
  | Q_no_response
  | Q_response cell

text \<open>
  The answer shown for one of the columns E1 to E3: the placeholder for a missing or blank
  cell, the cell itself otherwise.
\<close>

definition show_response :: "cell \<Rightarrow> qmsg" where
  "show_response response =
     (if isna response \<or> strip (str response) = [] then Q_no_response
      else Q_response response)"

text \<open>
  The argument \<open>df\<close> is the joined table read back from the output file of
  \<^verbatim>\<open>add_user_id_and_sort\<close>. The result is what was printed and the boolean returned.
\<close>

definition get_user_responses :: "joined_row list \<Rightarrow> int \<Rightarrow> qmsg list \<times> bool" where
  "get_user_responses df user_id =
     (let user_data = filter (\<lambda>r. user_no r = user_id) df in
      case user_data of
        [] \<Rightarrow>
          ([Q_reading_csv, Q_not_found user_id,
            Q_valid (sort (drop_duplicates (map user_no df)))], False)
      | row # _ \<Rightarrow>
          ([Q_reading_csv, Q_rule, Q_user user_id, Q_name (name (base row)),
            Q_student_id (student_id (base row)), Q_rule,
            Q_question 1, Q_dash, show_response (e1 (base row)),
            Q_question 2, Q_dash, show_response (e2 (base row)),
            Q_question 3, Q_dash, show_response (e3 (base row)),
            Q_rule], True))"

section \<open>generate\_template.py\<close>

datatype gmsg = G_reading_csv | G_extracted nat | G_generating | G_done | G_next_steps

text \<open>A name cell as the value \<^verbatim>\<open>yaml.dump\<close> receives.\<close>

fun py_of_cell :: "cell \<Rightarrow> pyval" where
  "py_of_cell NaN = PFloat ''nan''"
| "py_of_cell (Text s) = PStr s"

text \<open>
  The loop over \<^verbatim>\<open>students.iterrows()\<close>: \<open>idx\<close> is the row's index after
  \<^verbatim>\<open>reset_index\<close>, counting from 0.
\<close>

fun assign_ids ::
  "(pystr \<times> cell) list \<Rightarrow> int \<Rightarrow> (pystr \<times> pyval) list \<Rightarrow> (pystr \<times> pyval) list" where
  "assign_ids [] idx user_mapping = user_mapping"
| "assign_ids ((sid, nm) # students) idx user_mapping =
     (let user_id = idx + 1 in
      assign_ids students (idx + 1)
        (dict_set user_mapping sid
           (PDict [(ascii ''user_id'', PInt user_id), (ascii ''name'', py_of_cell nm)])))"

text \<open>
  The result is what was printed, the mapping dumped to the output file, and the boolean
  returned. \<open>students\<close> holds the two columns student number and name.
\<close>

definition generate_template ::
  "(pystr list \<Rightarrow> nat \<Rightarrow> nat) \<Rightarrow> survey_row list
     \<Rightarrow> gmsg list \<times> (pystr \<times> pyval) list option \<times> bool" where
  "generate_template ties df =
     (let df = map (\<lambda>r. r\<lparr>student_id := strip (student_id r)\<rparr>) df;
          students = drop_duplicates (map (\<lambda>r. (student_id r, name r)) df);
          students = sort_values ties fst students;
          user_mapping = assign_ids students 0 []
      in ([G_reading_csv, G_extracted (length students), G_generating, G_done, G_next_steps],
          Some user_mapping, True))"

section \<open>Notions used in the statements\<close>

subsection \<open>Entries of the raw mapping\<close>

text \<open>
  An entry is defective when its attribute bag is not a record, when its identifier field
  is absent or null, when the identifier is not an integer, or when it is an integer
  outside 1 to 18. An integer is a YAML integer; a boolean is not one.
\<close>

fun wrong_identifier :: "pyval option \<Rightarrow> bool" where
  "wrong_identifier None = True"
| "wrong_identifier (Some PNone) = True"
| "wrong_identifier (Some (PInt n)) = (n < 1 \<or> 18 < n)"
| "wrong_identifier (Some _) = True"

fun defective :: "pyval \<Rightarrow> bool" where
  "defective (PDict d) = wrong_identifier (map_of d (ascii ''user_id''))"
| "defective _ = True"

text \<open>The reason to report for a defective entry with the trimmed key \<open>sid\<close>.\<close>

fun identifier_reason :: "pystr \<Rightarrow> pyval option \<Rightarrow> entry_error" where
  "identifier_reason sid None = Not_set sid"
| "identifier_reason sid (Some PNone) = Not_set sid"
| "identifier_reason sid (Some (PInt n)) = Out_of_range sid (PInt n)"
| "identifier_reason sid (Some v) = Not_integer sid (type_name v)"

fun reason :: "pystr \<Rightarrow> pyval \<Rightarrow> entry_error" where
  "reason sid (PDict d) = identifier_reason sid (map_of d (ascii ''user_id''))"
| "reason sid _ = Bad_format sid"

text \<open>The defects of a raw mapping: one for each defective entry, in the order of the entries.\<close>

definition defects :: "(pystr \<times> pyval) list \<Rightarrow> entry_error list" where
  "defects data =
     map (\<lambda>(key, info). reason (strip key) info) (filter (\<lambda>(key, info). defective info) data)"

text \<open>The numeric identifier of an entry that is not defective.\<close>

fun integer_of :: "pyval option \<Rightarrow> int" where
  "integer_of (Some (PInt n)) = n"
| "integer_of _ = 0"

fun numeric_identifier :: "pyval \<Rightarrow> int" where
  "numeric_identifier (PDict d) = integer_of (map_of d (ascii ''user_id''))"
| "numeric_identifier _ = 0"

text \<open>The entries whose identifier is a boolean.\<close>

fun is_boolean :: "pyval option \<Rightarrow> bool" where
  "is_boolean (Some (PBool _)) = True"
| "is_boolean _ = False"

fun boolean_identifier :: "pyval \<Rightarrow> bool" where
  "boolean_identifier (PDict d) = is_boolean (map_of d (ascii ''user_id''))"
| "boolean_identifier _ = False"

subsection \<open>What the per-entry loop does\<close>

text \<open>
  The entries at which the loop takes one of its four \<^verbatim>\<open>continue\<close> branches, the error
  it appends there, and the pairs it stores for the other entries.
\<close>

definition rejected :: "pyval \<Rightarrow> bool" where
  "rejected info \<longleftrightarrow>
     \<not> isinstance_dict info \<or> dict_get info (ascii ''user_id'') = PNone
     \<or> \<not> isinstance_int (dict_get info (ascii ''user_id''))
     \<or> int_of (dict_get info (ascii ''user_id'')) < 1
     \<or> int_of (dict_get info (ascii ''user_id'')) > 18"

definition reported :: "pystr \<Rightarrow> pyval \<Rightarrow> entry_error" where
  "reported sid info =
     (if \<not> isinstance_dict info then Bad_format sid
      else if dict_get info (ascii ''user_id'') = PNone then Not_set sid
      else if \<not> isinstance_int (dict_get info (ascii ''user_id''))
        then Not_integer sid (type_name (dict_get info (ascii ''user_id'')))
      else Out_of_range sid (dict_get info (ascii ''user_id'')))"

definition errors_of :: "(pystr \<times> pyval) list \<Rightarrow> entry_error list" where
  "errors_of data =
     map (\<lambda>(key, info). reported (strip key) info) (filter (\<lambda>(key, info). rejected info) data)"

definition accepted :: "(pystr \<times> pyval) list \<Rightarrow> (pystr \<times> int) list" where
  "accepted data =
     map (\<lambda>(key, info). (strip key, int_of (dict_get info (ascii ''user_id''))))
       (filter (\<lambda>(key, info). \<not> rejected info) data)"

text \<open>Storing a list of pairs into a dictionary, one after the other.\<close>

definition dict_update :: "('k \<times> 'v) list \<Rightarrow> ('k \<times> 'v) list \<Rightarrow> ('k \<times> 'v) list" where
  "dict_update d kvs = fold (\<lambda>(k, v) d. dict_set d k v) kvs d"

subsection \<open>The joined table and the answers\<close>

text \<open>
  The rows of the table that the mapping resolves, each with its student number trimmed
  and its user number attached, in the order of the table.
\<close>

definition joined :: "(pystr \<times> int) list \<Rightarrow> survey_row list \<Rightarrow> joined_row list" where
  "joined user_mapping df =
     List.map_filter
       (\<lambda>r. case map_of user_mapping (strip (student_id r)) of
               None \<Rightarrow> None
             | Some n \<Rightarrow> Some \<lparr>user_no = n, base = r\<lparr>student_id := strip (student_id r)\<rparr>\<rparr>)
       df"

text \<open>
  How an answer is to be shown: a text that is not blank as it is, a missing answer and a
  blank one (empty or of whitespace only) as the placeholder for no answer.
\<close>

definition blank :: "pystr \<Rightarrow> bool" where
  "blank s \<longleftrightarrow> list_all is_space s"

fun expected_answer :: "cell \<Rightarrow> qmsg" where
  "expected_answer NaN = Q_no_response"
| "expected_answer (Text s) = (if blank s then Q_no_response else Q_response (Text s))"

text \<open>The ranks that leave rows with equal keys in the order of the input.\<close>

definition input_order :: "'k list \<Rightarrow> nat \<Rightarrow> nat" where
  "input_order keys i = i"

section \<open>Dictionaries\<close>

lemma map_of_dict_set: "map_of (dict_set d k v) = (map_of d)(k \<mapsto> v)"
  by (induction d) auto

lemma keys_dict_set: "fst ` set (dict_set d k v) = insert k (fst ` set d)"
  by (induction d) (force split: if_splits)+

lemma values_dict_set: "snd ` set (dict_set d k v) \<subseteq> insert v (snd ` set d)"
  by (induction d) (force split: if_splits)+

lemma distinct_dict_set: "distinct (map fst d) \<Longrightarrow> distinct (map fst (dict_set d k v))"
proof (induction d)
  case Nil
  show ?case by simp
next
  case (Cons p d)
  obtain k' v' where p: "p = (k', v')" by (cases p)
  from Cons.prems have new: "k' \<notin> fst ` set d" and dd: "distinct (map fst d)"
    by (simp_all add: p)
  from new have "k' \<noteq> k \<Longrightarrow> k' \<notin> fst ` set (dict_set d k v)"
    by (simp add: keys_dict_set)
  with Cons.IH [OF dd] new dd show ?case
    by (auto simp: p)
qed

lemma dict_set_new: "k \<notin> fst ` set d \<Longrightarrow> dict_set d k v = d @ [(k, v)]"
  by (induction d) auto

lemma dict_update_Nil: "dict_update d [] = d"
  by (simp add: dict_update_def)

lemma dict_update_Cons: "dict_update d ((k, v) # kvs) = dict_update (dict_set d k v) kvs"
  by (simp add: dict_update_def)

lemma map_of_dict_update: "map_of (dict_update d kvs) = map_of d ++ map_of (rev kvs)"
proof (induction kvs arbitrary: d)
  case Nil
  show ?case by (simp add: dict_update_Nil)
next
  case (Cons p kvs)
  obtain k v where p: "p = (k, v)" by (cases p)
  show ?case
    unfolding p dict_update_Cons Cons.IH
    by (simp add: map_of_dict_set map_add_upd_left fun_eq_iff map_add_def split: option.splits)
qed

lemma keys_dict_update: "fst ` set (dict_update d kvs) = fst ` set d \<union> fst ` set kvs"
proof (induction kvs arbitrary: d)
  case Nil
  show ?case by (simp add: dict_update_Nil)
next
  case (Cons p kvs)
  obtain k v where p: "p = (k, v)" by (cases p)
  show ?case
    unfolding p dict_update_Cons Cons.IH by (auto simp: keys_dict_set)
qed

lemma values_dict_update: "snd ` set (dict_update d kvs) \<subseteq> snd ` set d \<union> snd ` set kvs"
proof (induction kvs arbitrary: d)
  case Nil
  show ?case by (simp add: dict_update_Nil)
next
  case (Cons p kvs)
  obtain k v where p: "p = (k, v)" by (cases p)
  have "snd ` set (dict_update (dict_set d k v) kvs) \<subseteq> snd ` set (dict_set d k v) \<union> snd ` set kvs"
    by (rule Cons.IH)
  also have "\<dots> \<subseteq> insert v (snd ` set d) \<union> snd ` set kvs"
    using values_dict_set [of d k v] by blast
  finally show ?case
    unfolding p dict_update_Cons by auto
qed

lemma distinct_dict_update:
  "distinct (map fst d) \<Longrightarrow> distinct (map fst (dict_update d kvs))"
proof (induction kvs arbitrary: d)
  case Nil
  then show ?case by (simp add: dict_update_Nil)
next
  case (Cons p kvs)
  obtain k v where p: "p = (k, v)" by (cases p)
  show ?case
    unfolding p dict_update_Cons
    by (rule Cons.IH) (rule distinct_dict_set [OF Cons.prems])
qed

lemma dict_update_distinct:
  "distinct (map fst (d @ kvs)) \<Longrightarrow> dict_update d kvs = d @ kvs"
proof (induction kvs arbitrary: d)
  case Nil
  show ?case by (simp add: dict_update_Nil)
next
  case (Cons p kvs)
  obtain k v where p: "p = (k, v)" by (cases p)
  from Cons.prems have new: "k \<notin> fst ` set d" by (auto simp: p)
  from Cons.prems have "distinct (map fst ((d @ [(k, v)]) @ kvs))" by (simp add: p)
  from Cons.IH [OF this] show ?case
    unfolding p dict_update_Cons dict_set_new [OF new] by simp
qed


lemma set_dict_update_subset: "set (dict_update [] kvs) \<subseteq> set kvs"
proof
  fix p assume p: "p \<in> set (dict_update [] kvs)"
  obtain k u where ku: "p = (k, u)" by (cases p)
  have "distinct (map fst (dict_update [] kvs))"
    by (rule distinct_dict_update) simp
  with p have "map_of (dict_update [] kvs) k = Some u"
    by (simp add: ku)
  then have "map_of (rev kvs) k = Some u"
    by (simp add: map_of_dict_update)
  then have "(k, u) \<in> set (rev kvs)" by (rule map_of_SomeD)
  then show "p \<in> set kvs" by (simp add: ku)
qed

lemma distinct_values_dict_update:
  assumes "distinct (map snd kvs)"
  shows "distinct (map snd (dict_update [] kvs))"
proof -
  have "distinct (map fst (dict_update [] kvs))"
    by (rule distinct_dict_update) simp
  then have d: "distinct (dict_update [] kvs)"
    by (simp add: distinct_map)
  from assms have "inj_on snd (set kvs)" by (simp add: distinct_map)
  then have "inj_on snd (set (dict_update [] kvs))"
    by (rule inj_on_subset) (rule set_dict_update_subset)
  with d show ?thesis by (simp add: distinct_map)
qed


lemma overwritten_value_dropped:
  assumes ij: "i < j" and j: "j < length kvs"
    and key: "fst (kvs ! i) = fst (kvs ! j)"
    and dv: "distinct (map snd kvs)"
  shows "snd (kvs ! i) \<notin> snd ` set (dict_update [] kvs)"
proof
  assume "snd (kvs ! i) \<in> snd ` set (dict_update [] kvs)"
  then obtain k where in_um: "(k, snd (kvs ! i)) \<in> set (dict_update [] kvs)"
    by force
  let ?u = "snd (kvs ! i)"
  let ?old = "take (Suc i) kvs" and ?new = "drop (Suc i) kvs"
  have i: "i < length kvs" using ij j by simp
  have split: "kvs = ?old @ ?new" by simp
  have inj: "inj_on snd (set kvs)" using dv by (simp add: distinct_map)
  have "(k, ?u) \<in> set kvs" using in_um set_dict_update_subset by blast
  moreover have "kvs ! i \<in> set kvs" using i by simp
  moreover have "snd (k, ?u) = snd (kvs ! i)" by simp
  ultimately have "(k, ?u) = kvs ! i"
    using inj by (metis inj_onD)
  then have k: "k = fst (kvs ! j)" using key by (metis fst_conv)
  have "distinct (map fst (dict_update [] kvs))"
    by (rule distinct_dict_update) simp
  with in_um have "map_of (dict_update [] kvs) k = Some ?u" by simp
  then have look: "map_of (rev kvs) k = Some ?u" by (simp add: map_of_dict_update)
  have "kvs ! j = ?new ! (j - Suc i)" using ij j by simp
  moreover have "j - Suc i < length ?new" using ij j by simp
  ultimately have jn: "kvs ! j \<in> set ?new" by (metis nth_mem)
  then have "k \<in> fst ` set (rev ?new)" using k by force
  then obtain v where v: "map_of (rev ?new) k = Some v"
    by (metis weak_map_of_SomeI map_of_eq_None_iff not_None_eq)
  have "rev kvs = rev ?new @ rev ?old" by (metis split rev_append)
  then have "map_of (rev kvs) k = Some v"
    using v by (simp add: map_add_Some_iff)
  with look have "v = ?u" by simp
  with v have "(k, ?u) \<in> set ?new" using map_of_SomeD by fastforce
  then have "snd (k, ?u) \<in> snd ` set ?new" by (rule imageI)
  then have "?u \<in> snd ` set ?new" by simp
  moreover have "?u \<in> snd ` set ?old"
  proof -
    have "kvs ! i = ?old ! i" by simp
    moreover have "i < length ?old" using i by simp
    ultimately have "kvs ! i \<in> set ?old" by (metis nth_mem)
    then show ?thesis by (rule imageI)
  qed
  moreover have "distinct (map snd (?old @ ?new))" using dv by simp
  ultimately show False
    by (simp only: map_append distinct_append set_map) blast
qed

section \<open>The per-entry pass\<close>

lemma per_entry_rejected:
  "rejected info \<Longrightarrow>
     per_entry ((key, info) # items) um errs = per_entry items um (errs @ [reported (strip key) info])"
  by (auto simp: rejected_def reported_def Let_def)

lemma per_entry_accepted:
  "\<not> rejected info \<Longrightarrow>
     per_entry ((key, info) # items) um errs =
       per_entry items (dict_set um (strip key) (int_of (dict_get info (ascii ''user_id'')))) errs"
  by (auto simp: rejected_def Let_def)

lemma per_entry_eq:
  "per_entry data um errs = (dict_update um (accepted data), errs @ errors_of data)"
proof (induction data arbitrary: um errs)
  case Nil
  show ?case by (simp add: accepted_def errors_of_def dict_update_Nil)
next
  case (Cons item data)
  obtain key info where item: "item = (key, info)" by (cases item)
  show ?case
  proof (cases "rejected info")
    case True
    then show ?thesis
      unfolding item per_entry_rejected [OF True] Cons.IH
      by (simp add: accepted_def errors_of_def)
  next
    case False
    then show ?thesis
      unfolding item per_entry_accepted [OF False] Cons.IH
      by (simp add: accepted_def errors_of_def dict_update_Cons)
  qed
qed

lemma errors_of_Nil_iff: "errors_of data = [] \<longleftrightarrow> \<not> (\<exists>(key, info) \<in> set data. rejected info)"
  by (auto simp: errors_of_def filter_empty_conv)

lemma accepted_values: "snd ` set (accepted data) \<subseteq> {1..18}"
  by (auto simp: accepted_def rejected_def)

text \<open>
  The loop and the notion of a defective entry agree on every entry but those with a
  boolean identifier.
\<close>

lemma rejected_iff_defective: "\<not> boolean_identifier info \<Longrightarrow> rejected info \<longleftrightarrow> defective info"
proof (cases info)
  case (PDict d)
  assume nb: "\<not> boolean_identifier info"
  show ?thesis
  proof (cases "map_of d (ascii ''user_id'')")
    case None
    then show ?thesis by (simp add: PDict rejected_def)
  next
    case (Some v)
    with nb show ?thesis by (cases v) (auto simp: PDict rejected_def)
  qed
qed (simp_all add: rejected_def)

lemma reported_eq_reason:
  "\<not> boolean_identifier info \<Longrightarrow> rejected info \<Longrightarrow> reported sid info = reason sid info"
proof (cases info)
  case (PDict d)
  assume nb: "\<not> boolean_identifier info" and rj: "rejected info"
  show ?thesis
  proof (cases "map_of d (ascii ''user_id'')")
    case None
    then show ?thesis by (simp add: PDict reported_def)
  next
    case (Some v)
    with nb rj show ?thesis by (cases v) (auto simp: PDict reported_def rejected_def)
  qed
qed (simp_all add: reported_def)

lemma not_defective:
  assumes "\<not> defective info"
  shows "\<not> rejected info" and "int_of (dict_get info (ascii ''user_id'')) = numeric_identifier info"
proof -
  from assms obtain d where d: "info = PDict d" by (cases info) simp_all
  with assms obtain v where v: "map_of d (ascii ''user_id'') = Some v"
    by (cases "map_of d (ascii ''user_id'')") simp_all
  from assms have "\<not> wrong_identifier (Some v)" by (simp add: d v)
  then obtain n where n: "v = PInt n" "1 \<le> n" "n \<le> 18"
    by (cases v) (auto simp: not_less)
  show "\<not> rejected info" using n by (simp add: d v rejected_def not_less)
  show "int_of (dict_get info (ascii ''user_id'')) = numeric_identifier info" by (simp add: d v n)
qed

lemma errors_of_eq_defects:
  assumes "\<forall>(key, info) \<in> set data. \<not> boolean_identifier info"
  shows "errors_of data = defects data"
  using assms
proof (induction data)
  case Nil
  show ?case by (simp add: errors_of_def defects_def)
next
  case (Cons item data)
  obtain key info where item: "item = (key, info)" by (cases item)
  from Cons.prems have nb: "\<not> boolean_identifier info"
    and rest: "\<forall>(key, info) \<in> set data. \<not> boolean_identifier info"
    by (simp_all add: item)
  from Cons.IH [OF rest] have ih: "errors_of data = defects data" .
  show ?case
  proof (cases "rejected info")
    case True
    with rejected_iff_defective [OF nb] have "defective info" by simp
    with True reported_eq_reason [OF nb True] ih show ?thesis
      by (simp add: item errors_of_def defects_def)
  next
    case False
    with rejected_iff_defective [OF nb] have "\<not> defective info" by simp
    with False ih show ?thesis
      by (simp add: item errors_of_def defects_def)
  qed
qed

lemma accepted_clean:
  assumes "\<forall>(key, info) \<in> set data. \<not> defective info"
  shows "accepted data = map (\<lambda>(key, info). (strip key, numeric_identifier info)) data"
  using assms
proof (induction data)
  case Nil
  show ?case by (simp add: accepted_def)
next
  case (Cons item data)
  obtain key info where item: "item = (key, info)" by (cases item)
  from Cons.prems have v: "\<not> defective info"
    and rest: "\<forall>(key, info) \<in> set data. \<not> defective info"
    by (simp_all add: item)
  from Cons.IH [OF rest] not_defective [OF v] show ?case
    by (simp add: item accepted_def)
qed

lemma errors_of_clean:
  assumes "\<forall>(key, info) \<in> set data. \<not> defective info"
  shows "errors_of data = []"
proof -
  have "\<not> (\<exists>(key, info) \<in> set data. rejected info)"
    using assms not_defective(1) by fastforce
  then show ?thesis using errors_of_Nil_iff by blast
qed

section \<open>The checks after the per-entry pass\<close>

lemma set_iter_ok_remdups: "set_iter_ok remdups"
  by (simp add: set_iter_ok_def)

lemma count_list_distinct: "distinct xs \<Longrightarrow> \<not> 1 < count_list xs x"
  by (induction xs) (auto simp: count_list_0_iff)

lemma no_duplicates: "distinct xs \<Longrightarrow> filter (\<lambda>x. count_list xs x > 1) ys = []"
  using count_list_distinct [of xs] by (auto simp: filter_empty_conv)

lemma missing_Nil_iff: "filter (\<lambda>i. i \<notin> S) [1..18] = [] \<longleftrightarrow> {1..18} \<subseteq> S"
  by (auto simp: filter_empty_conv)

lemma load_clean:
  assumes "data \<noteq> []" and "errors_of data = []"
    and "distinct (map snd (dict_update [] (accepted data)))"
  shows "load_user_mapping set_iter data =
           (P_reading_yaml #
              (if {1..18} \<subseteq> snd ` set (dict_update [] (accepted data)) then []
               else [P_missing (filter (\<lambda>i. i \<notin> snd ` set (dict_update [] (accepted data))) [1..18]),
                     P_recommend])
              @ [P_loaded (length (dict_update [] (accepted data)))],
            Inr (dict_update [] (accepted data)))"
proof -
  have nd: "filter (\<lambda>uid. count_list (map snd (dict_update [] (accepted data))) uid > 1)
              (set_iter (map snd (dict_update [] (accepted data)))) = []"
    by (rule no_duplicates) (rule assms(3))
  show ?thesis
    using assms(1,2)
    by (simp add: load_user_mapping_def per_entry_eq nd missing_Nil_iff Let_def del: One_nat_def)
qed

lemma load_Inr:
  assumes "load_user_mapping set_iter data = (out, Inr um)"
  shows "errors_of data = [] \<and> um = dict_update [] (accepted data)"
  using assms
  by (auto simp: load_user_mapping_def per_entry_eq Let_def split: if_splits)

lemma count_list_students_of: "count_list (map snd um) uid = length (students_of um uid)"
  by (induction um) (auto simp: students_of_def)

lemma students_of_keys:
  assumes "distinct (map fst um)"
  shows "distinct (students_of um uid) \<and> set (students_of um uid) = {k. map_of um k = Some uid}"
proof
  show "distinct (students_of um uid)"
    unfolding students_of_def using assms by (rule distinct_map_filter)
  show "set (students_of um uid) = {k. map_of um k = Some uid}"
    using assms by (force simp: students_of_def)
qed

lemma repeated_element: "\<not> distinct xs \<Longrightarrow> \<exists>x \<in> set xs. 1 < count_list xs x"
proof (induction xs)
  case Nil
  then show ?case by simp
next
  case (Cons a xs)
  show ?case
  proof (cases "a \<in> set xs")
    case True
    then have "count_list xs a \<noteq> 0" by (simp add: count_list_0_iff)
    then show ?thesis by auto
  next
    case False
    with Cons.prems have "\<not> distinct xs" by simp
    from Cons.IH [OF this] obtain x where x: "x \<in> set xs" "1 < count_list xs x" by blast
    then have "x \<in> set (a # xs)" and "1 < count_list (a # xs) x" by simp_all
    then show ?thesis by blast
  qed
qed

lemma count_list_in_set: "1 < count_list xs x \<Longrightarrow> x \<in> set xs"
  by (metis count_list_0_iff not_less_zero)

section \<open>Validation of the mapping\<close>

subsection \<open>Defective entries\<close>

text \<open>
  A raw mapping with one or more defective entries, none of them with a boolean
  identifier, makes \<open>load_user_mapping\<close> fail once, after the whole per-entry pass: it
  prints one line for every defective entry, with the trimmed key and the reason, in the
  order of the entries, and raises the error that counts them. Nothing of the duplicate
  check or of the coverage check is printed.
\<close>

lemma validate_reports_every_defect:
  assumes "\<forall>(key, info) \<in> set data. \<not> boolean_identifier info"
    and "\<exists>(key, info) \<in> set data. defective info"
  shows "load_user_mapping set_iter data =
           ([P_reading_yaml, P_errors_header] @ map P_error (defects data),
            Inl (ValueError (N_errors (length (defects data)))))"
proof -
  from assms(2) have ne: "data \<noteq> []" by auto
  from assms(2) have d: "defects data \<noteq> []"
    by (auto simp: defects_def filter_empty_conv)
  have e: "errors_of data = defects data" by (rule errors_of_eq_defects) (rule assms(1))
  show ?thesis
    using ne d by (simp add: load_user_mapping_def per_entry_eq e)
qed

text \<open>
  Two entries without the identifier field and one with the identifier 25, next to a valid
  entry: three defects are reported.
\<close>

lemma validate_reports_every_defect_example:
  "load_user_mapping remdups
        [(ascii ''S001 '', PDict [(ascii ''name'', PStr (ascii ''a''))]),
         (ascii ''S002'', PDict [(ascii ''user_id'', PInt 4)]),
         (ascii ''S003'', PDict [(ascii ''name'', PStr (ascii ''c''))]),
         (ascii ''S004'', PDict [(ascii ''user_id'', PInt 25)])]
     = ([P_reading_yaml, P_errors_header, P_error (Not_set (ascii ''S001'')),
         P_error (Not_set (ascii ''S003'')), P_error (Out_of_range (ascii ''S004'') (PInt 25))],
        Inl (ValueError (N_errors 3)))"
  using validate_reports_every_defect
    [of "[(ascii ''S001 '', PDict [(ascii ''name'', PStr (ascii ''a''))]),
         (ascii ''S002'', PDict [(ascii ''user_id'', PInt 4)]),
         (ascii ''S003'', PDict [(ascii ''name'', PStr (ascii ''c''))]),
         (ascii ''S004'', PDict [(ascii ''user_id'', PInt 25)])]" remdups]
  by (simp add: defects_def strip_def is_space_def ascii_def)

text \<open>
  Claim C1. Every defective entry is to be reported with its reason, and an identifier that
  is not an integer is a defect. The type check of the loop is
  \<^verbatim>\<open>isinstance(user_id, int)\<close>, which holds of the booleans, \<^verbatim>\<open>bool\<close> being a subclass
  of \<^verbatim>\<open>int\<close>. So the entry \<^verbatim>\<open>S001: {user_id: true}\<close>, whose one defect is an identifier
  of type \<^verbatim>\<open>bool\<close>, is accepted: \<open>load_user_mapping\<close> returns the mapping of \<^verbatim>\<open>S001\<close> to
  1 and prints the coverage warning. With \<^verbatim>\<open>false\<close> in its place the run fails, but the
  reason reported is that the value is out of range, not that it is not an integer.
\<close>

theorem boolean_identifier_accepted:
  "defects [(ascii ''S001'', PDict [(ascii ''user_id'', PBool True)])]
     = [Not_integer (ascii ''S001'') ''bool'']
   \<and> load_user_mapping remdups [(ascii ''S001'', PDict [(ascii ''user_id'', PBool True)])]
     = ([P_reading_yaml,
         P_missing [2, 3, 4, 5, 6, 7, 8, 9, 10, 11, 12, 13, 14, 15, 16, 17, 18],
         P_recommend, P_loaded 1],
        Inr [(ascii ''S001'', 1)])
   \<and> load_user_mapping remdups [(ascii ''S001'', PDict [(ascii ''user_id'', PBool False)])]
     = ([P_reading_yaml, P_errors_header, P_error (Out_of_range (ascii ''S001'') (PBool False))],
        Inl (ValueError (N_errors 1)))"
  by (simp add: defects_def load_user_mapping_def students_of_def strip_def is_space_def ascii_def
      upto_rec1)

subsection \<open>Duplicate identifiers\<close>

text \<open>
  Claim C2. Let \<open>um\<close> and \<open>errors\<close> be the mapping and the errors the per-entry pass ends
  with. When there are errors, nothing of the duplicate check is printed and the error
  raised is not the one for duplicates. When there are none and some numeric identifier is
  the value of two or more keys of \<open>um\<close>, \<open>load_user_mapping\<close> raises the error for
  duplicates, and prints one line for each numeric identifier that two or more keys share,
  and for no other, with all the trimmed keys that have this identifier.
\<close>

theorem duplicate_identifiers_reported:
  assumes it: "set_iter_ok set_iter" and pass: "per_entry data [] [] = (um, errors)"
  shows "(errors \<noteq> [] \<longrightarrow>
            P_dup_header \<notin> set (fst (load_user_mapping set_iter data))
            \<and> (\<forall>n. snd (load_user_mapping set_iter data) \<noteq> Inl (ValueError (N_duplicates n))))
       \<and> (errors = [] \<and> \<not> distinct (map snd um) \<longrightarrow>
            (\<exists>dups. load_user_mapping set_iter data =
                 ([P_reading_yaml, P_dup_header] @ map (\<lambda>uid. P_dup uid (students_of um uid)) dups,
                  Inl (ValueError (N_duplicates (length dups))))
               \<and> dups \<noteq> [] \<and> distinct dups
               \<and> set dups = {uid. 1 < length (students_of um uid)}
               \<and> (\<forall>uid. distinct (students_of um uid)
                      \<and> set (students_of um uid) = {k. map_of um k = Some uid})))"
proof (intro conjI impI)
  assume e: "errors \<noteq> []"
  then have ne: "data \<noteq> []" using pass by auto
  have res: "load_user_mapping set_iter data =
          ([P_reading_yaml, P_errors_header] @ map P_error errors,
           Inl (ValueError (N_errors (length errors))))"
    using ne e by (simp add: load_user_mapping_def pass)
  show "P_dup_header \<notin> set (fst (load_user_mapping set_iter data))"
    by (auto simp: res)
  show "\<forall>n. snd (load_user_mapping set_iter data) \<noteq> Inl (ValueError (N_duplicates n))"
    by (simp add: res)
next
  assume a: "errors = [] \<and> \<not> distinct (map snd um)"
  let ?ids = "map snd um"
  let ?dups = "filter (\<lambda>uid. count_list ?ids uid > 1) (set_iter ?ids)"
  from a have ne: "data \<noteq> []" using pass by auto
  from it have d: "distinct (set_iter ?ids)" and s: "set (set_iter ?ids) = set ?ids"
    by (simp_all add: set_iter_ok_def)
  from a obtain x where x: "x \<in> set ?ids" "1 < count_list ?ids x"
    using repeated_element [of ?ids] by blast
  then have "x \<in> set ?dups" using s by simp
  then have nonempty: "?dups \<noteq> []" by (metis empty_iff empty_set)
  have dist: "distinct ?dups" using d by simp
  have "set ?dups = {uid. 1 < count_list ?ids uid}"
    using s count_list_in_set [of ?ids] by auto
  then have named: "set ?dups = {uid. 1 < length (students_of um uid)}"
    by (simp only: count_list_students_of)
  have "um = dict_update [] (accepted data)"
    using pass by (simp add: per_entry_eq)
  then have "distinct (map fst um)"
    using distinct_dict_update [of "[]" "accepted data"] by simp
  then have keys: "\<forall>uid. distinct (students_of um uid)
      \<and> set (students_of um uid) = {k. map_of um k = Some uid}"
    using students_of_keys by blast
  have e: "errors = []" using a by simp
  have "load_user_mapping set_iter data =
          ([P_reading_yaml, P_dup_header] @ map (\<lambda>uid. P_dup uid (students_of um uid)) ?dups,
           Inl (ValueError (N_duplicates (length ?dups))))"
    unfolding load_user_mapping_def pass Let_def
    using ne e nonempty by (simp only: if_False if_True prod.case simp_thms)
  with nonempty dist named keys
  show "\<exists>dups. load_user_mapping set_iter data =
                 ([P_reading_yaml, P_dup_header] @ map (\<lambda>uid. P_dup uid (students_of um uid)) dups,
                  Inl (ValueError (N_duplicates (length dups))))
               \<and> dups \<noteq> [] \<and> distinct dups
               \<and> set dups = {uid. 1 < length (students_of um uid)}
               \<and> (\<forall>uid. distinct (students_of um uid)
                      \<and> set (students_of um uid) = {k. map_of um k = Some uid})"
    by blast
qed

text \<open>
  Two keys with the identifier 7: the line printed names 7 and both keys. With a third,
  defective entry the duplicate check is not reached.
\<close>

theorem duplicate_identifiers_reported_witness:
  "set_iter_ok (remdups :: int list \<Rightarrow> int list)
   \<and> per_entry [((ascii ''S001''), PDict [((ascii ''user_id''), PInt 7)]), ((ascii ''S002 ''), PDict [((ascii ''user_id''), PInt 7)])]
         [] [] = ([((ascii ''S001''), 7), ((ascii ''S002''), 7)], [])
   \<and> \<not> distinct (map snd [((ascii ''S001''), 7 :: int), ((ascii ''S002''), 7)])
   \<and> load_user_mapping remdups
        [((ascii ''S001''), PDict [((ascii ''user_id''), PInt 7)]), ((ascii ''S002 ''), PDict [((ascii ''user_id''), PInt 7)])]
       = ([P_reading_yaml, P_dup_header, P_dup 7 [(ascii ''S001''), (ascii ''S002'')]],
          Inl (ValueError (N_duplicates 1)))
   \<and> per_entry [((ascii ''S001''), PDict [((ascii ''user_id''), PInt 7)]), ((ascii ''S002 ''), PDict [((ascii ''user_id''), PInt 7)]),
                 ((ascii ''S003''), PStr (ascii ''x''))] [] []
       = ([((ascii ''S001''), 7), ((ascii ''S002''), 7)], [Bad_format (ascii ''S003'')])
   \<and> [Bad_format (ascii ''S003'')] \<noteq> []
   \<and> P_dup_header \<notin> set (fst (load_user_mapping remdups
        [((ascii ''S001''), PDict [((ascii ''user_id''), PInt 7)]), ((ascii ''S002 ''), PDict [((ascii ''user_id''), PInt 7)]),
         ((ascii ''S003''), PStr (ascii ''x''))]))"
proof -
  let ?a = "[((ascii ''S001''), PDict [((ascii ''user_id''), PInt 7)]), ((ascii ''S002 ''), PDict [((ascii ''user_id''), PInt 7)])]"
  let ?b = "[((ascii ''S001''), PDict [((ascii ''user_id''), PInt 7)]), ((ascii ''S002 ''), PDict [((ascii ''user_id''), PInt 7)]),
             ((ascii ''S003''), PStr (ascii ''x''))]"
  let ?um = "[((ascii ''S001''), 7 :: int), ((ascii ''S002''), 7)]"
  have it: "set_iter_ok (remdups :: int list \<Rightarrow> int list)" by (rule set_iter_ok_remdups)
  have pa: "per_entry ?a [] [] = (?um, [])" by (simp add: strip_def is_space_def ascii_def)
  have pb: "per_entry ?b [] [] = (?um, [Bad_format (ascii ''S003'')])" by (simp add: strip_def is_space_def ascii_def)
  have nd: "\<not> distinct (map snd ?um)" by simp
  have la: "load_user_mapping remdups ?a
       = ([P_reading_yaml, P_dup_header, P_dup 7 [(ascii ''S001''), (ascii ''S002'')]],
          Inl (ValueError (N_duplicates 1)))"
    by (simp add: load_user_mapping_def strip_def is_space_def students_of_def ascii_def)
  have "P_dup_header \<notin> set (fst (load_user_mapping remdups ?b))"
    using duplicate_identifiers_reported [OF it pb] by simp
  moreover have "\<exists>dups. load_user_mapping remdups ?a =
      ([P_reading_yaml, P_dup_header] @ map (\<lambda>uid. P_dup uid (students_of ?um uid)) dups,
       Inl (ValueError (N_duplicates (length dups))))"
    using duplicate_identifiers_reported [OF it pa] nd by blast
  ultimately show ?thesis using it pa pb nd la by (simp only: simp_thms not_Cons_self2)
qed

subsection \<open>Accepted mappings\<close>

text \<open>
  Claim C4, amended. A raw mapping that is not empty, has no defective entry, has pairwise
  different keys after trimming and pairwise different numeric identifiers is accepted:
  \<open>load_user_mapping\<close> returns the trimmed keys with their numeric identifiers, one for
  each entry of the input, in the order of the input. It prints the coverage warning, with
  the missing identifiers in ascending order, exactly when the identifiers used are not all
  of 1 to 18, and succeeds in either case.
\<close>

theorem validate_accepts_clean_mapping:
  assumes "data \<noteq> []"
    and "\<forall>(key, info) \<in> set data. \<not> defective info"
    and "distinct (map (\<lambda>(key, info). strip key) data)"
    and "distinct (map (\<lambda>(key, info). numeric_identifier info) data)"
  shows "load_user_mapping set_iter data =
           (P_reading_yaml #
              (if (\<lambda>(key, info). numeric_identifier info) ` set data = {1..18} then []
               else [P_missing
                       (filter (\<lambda>i. i \<notin> (\<lambda>(key, info). numeric_identifier info) ` set data) [1..18]),
                     P_recommend])
              @ [P_loaded (length data)],
            Inr (map (\<lambda>(key, info). (strip key, numeric_identifier info)) data))"
proof -
  let ?um = "map (\<lambda>(key, info). (strip key, numeric_identifier info)) data"
  have acc: "accepted data = ?um"
    by (rule accepted_clean) (rule assms(2))
  have keys: "map fst ?um = map (\<lambda>(key, info). strip key) data"
    by (simp add: case_prod_unfold)
  have vals: "map snd ?um = map (\<lambda>(key, info). numeric_identifier info) data"
    by (simp add: case_prod_unfold)
  have vset: "snd ` set ?um = (\<lambda>(key, info). numeric_identifier info) ` set data"
    using vals by (metis set_map)
  have "distinct (map fst ([] @ ?um))"
    using assms(3) by (simp only: keys append_Nil)
  then have um: "dict_update [] (accepted data) = ?um"
    using dict_update_distinct [of "[]" ?um] by (simp add: acc)
  have len: "length ?um = length data" by simp
  have clean: "errors_of data = []"
    by (rule errors_of_clean) (rule assms(2))
  have dv: "distinct (map snd (dict_update [] (accepted data)))"
    using assms(4) by (simp only: um vals)
  have "snd ` set (accepted data) \<subseteq> {1..18}" by (rule accepted_values)
  then have full: "{1..18} \<subseteq> (\<lambda>(key, info). numeric_identifier info) ` set data
      \<longleftrightarrow> (\<lambda>(key, info). numeric_identifier info) ` set data = {1..18}"
    unfolding acc vset by blast
  show ?thesis
    using load_clean [OF assms(1) clean dv, of set_iter]
    by (simp only: um len vset full)
qed

text \<open>
  Two entries, one of them with an ideographic space (U+3000) around its key: both are
  returned, the key trimmed, with the warning for the identifiers 3 to 18.
\<close>

theorem validate_accepts_clean_mapping_witness:
  "[(ascii ''S001'', PDict [(ascii ''user_id'', PInt 2), (ascii ''name'', PStr (ascii ''a''))]),
    (ascii ''S002'' @ [0x3000], PDict [(ascii ''user_id'', PInt 1)])] \<noteq> []
   \<and> list_all (\<lambda>(key, info). \<not> defective info)
        [(ascii ''S001'', PDict [(ascii ''user_id'', PInt 2), (ascii ''name'', PStr (ascii ''a''))]),
         (ascii ''S002'' @ [0x3000], PDict [(ascii ''user_id'', PInt 1)])]
   \<and> distinct (map (\<lambda>(key, info). strip key)
        [(ascii ''S001'', PDict [(ascii ''user_id'', PInt 2), (ascii ''name'', PStr (ascii ''a''))]),
         (ascii ''S002'' @ [0x3000], PDict [(ascii ''user_id'', PInt 1)])])
   \<and> distinct (map (\<lambda>(key, info). numeric_identifier info)
        [(ascii ''S001'', PDict [(ascii ''user_id'', PInt 2), (ascii ''name'', PStr (ascii ''a''))]),
         (ascii ''S002'' @ [0x3000], PDict [(ascii ''user_id'', PInt 1)])])
   \<and> snd (load_user_mapping remdups
        [(ascii ''S001'', PDict [(ascii ''user_id'', PInt 2), (ascii ''name'', PStr (ascii ''a''))]),
         (ascii ''S002'' @ [0x3000], PDict [(ascii ''user_id'', PInt 1)])])
       = Inr [(ascii ''S001'', 2), (ascii ''S002'', 1)]"
proof -
  let ?d = "[(ascii ''S001'', PDict [(ascii ''user_id'', PInt 2), (ascii ''name'', PStr (ascii ''a''))]),
         (ascii ''S002'' @ [0x3000], PDict [(ascii ''user_id'', PInt 1)])]"
  have h1: "?d \<noteq> []" by simp
  have h2: "\<forall>(key, info) \<in> set ?d. \<not> defective info" by (simp add: ascii_def)
  have h2': "list_all (\<lambda>(key, info). \<not> defective info) ?d" by (simp add: ascii_def)
  have h3: "distinct (map (\<lambda>(key, info). strip key) ?d)"
    by (simp add: strip_def is_space_def ascii_def)
  have h4: "distinct (map (\<lambda>(key, info). numeric_identifier info) ?d)" by (simp add: ascii_def)
  have um: "map (\<lambda>(key, info). (strip key, numeric_identifier info)) ?d
      = [(ascii ''S001'', 2), (ascii ''S002'', 1)]"
    by (simp add: strip_def is_space_def ascii_def)
  from validate_accepts_clean_mapping [OF h1 h2 h3 h4, of remdups]
  have "snd (load_user_mapping remdups ?d)
      = Inr (map (\<lambda>(key, info). (strip key, numeric_identifier info)) ?d)"
    by simp
  then have "snd (load_user_mapping remdups ?d) = Inr [(ascii ''S001'', 2), (ascii ''S002'', 1)]"
    by (simp only: um)
  with h1 h2' h3 h4 show ?thesis by (simp only: simp_thms)
qed

text \<open>
  As first stated, without the conditions on the keys and on the input not being empty, the
  property fails on two inputs whose per-entry pass is clean and whose numeric identifiers
  are unique. Two keys that are equal after trimming give a mapping of one entry for an
  input of two. The empty mapping is rejected by the guard at the head of the function.
\<close>

theorem validate_same_cardinality_counterexample:
  "defects [(ascii ''S001'', PDict [(ascii ''user_id'', PInt 3)]),
            (ascii '' S001 '', PDict [(ascii ''user_id'', PInt 5)])] = []
   \<and> snd (load_user_mapping remdups
        [(ascii ''S001'', PDict [(ascii ''user_id'', PInt 3)]),
         (ascii '' S001 '', PDict [(ascii ''user_id'', PInt 5)])])
       = Inr [(ascii ''S001'', 5)]
   \<and> defects [] = []
   \<and> snd (load_user_mapping remdups []) = Inl (ValueError Empty_yaml)"
  by (simp add: defects_def strip_def is_space_def load_user_mapping_def
      students_of_def Let_def ascii_def)

subsection \<open>Keys that are equal after trimming\<close>










section \<open>Joining the mapping onto the table\<close>

lemma mset_sort_values: "mset (sort_values ties col df) = mset df"
proof -
  let ?f = "\<lambda>(i, r). (col r, ties (map col df) i)"
  have "mset (map snd (sort_key ?f (enumerate 0 df))) = image_mset snd (mset (sort_key ?f (enumerate 0 df)))"
    by (rule mset_map)
  also have "\<dots> = image_mset snd (mset (enumerate 0 df))" by simp
  also have "\<dots> = mset (map snd (enumerate 0 df))" by (rule mset_map [symmetric])
  also have "\<dots> = mset df" by simp
  finally show ?thesis by (simp only: sort_values_def)
qed

lemma set_sort_values: "set (sort_values ties col df) = set df"
  using mset_sort_values [of ties col df] by (rule mset_eq_setD)

lemma length_sort_values: "length (sort_values ties col df) = length df"
  using mset_sort_values [of ties col df] by (rule mset_eq_length)

lemma sorted_map_fst:
  fixes ps :: "('a::linorder \<times> 'b::linorder) list"
  shows "sorted ps \<Longrightarrow> sorted (map fst ps)"
  by (induction ps) (auto simp: less_eq_prod_def)

lemma sorted_sort_values: "sorted (map col (sort_values ties col df))"
proof -
  let ?f = "\<lambda>(i, r). (col r, ties (map col df) i)"
  let ?s = "sort_key ?f (enumerate 0 df)"
  have "sorted (map ?f ?s)" by (rule sorted_sort_key)
  then have "sorted (map fst (map ?f ?s))" by (rule sorted_map_fst)
  moreover have "map fst (map ?f ?s) = map col (map snd ?s)"
    by (simp add: case_prod_unfold)
  ultimately show ?thesis by (simp only: sort_values_def)
qed

lemma unmapped_rows:
  "filter (\<lambda>(u, r). u = None)
     (map_column um (map (\<lambda>r. r\<lparr>student_id := strip (student_id r)\<rparr>) df))
   = map (\<lambda>r. (None, r\<lparr>student_id := strip (student_id r)\<rparr>))
       (filter (\<lambda>r. map_of um (strip (student_id r)) = None) df)"
  by (induction df) (simp_all add: map_column_def)

lemma astype_int_joined:
  "\<forall>r \<in> set df. map_of um (strip (student_id r)) \<noteq> None \<Longrightarrow>
     astype_int (map_column um (map (\<lambda>r. r\<lparr>student_id := strip (student_id r)\<rparr>) df))
       = Some (joined um df)"
proof (induction df)
  case Nil
  show ?case by (simp add: map_column_def joined_def map_filter_simps)
next
  case (Cons r df)
  from Cons.prems obtain n where n: "map_of um (strip (student_id r)) = Some n" by auto
  from Cons.prems have "\<forall>r \<in> set df. map_of um (strip (student_id r)) \<noteq> None" by simp
  from Cons.IH [OF this] show ?case
    by (simp add: map_column_def joined_def map_filter_simps n)
qed

lemma length_joined:
  "\<forall>r \<in> set df. map_of um (strip (student_id r)) \<noteq> None \<Longrightarrow> length (joined um df) = length df"
proof (induction df)
  case Nil
  show ?case by (simp add: joined_def map_filter_simps)
next
  case (Cons r df)
  from Cons.prems obtain n where n: "map_of um (strip (student_id r)) = Some n" by auto
  from Cons.prems have "\<forall>r \<in> set df. map_of um (strip (student_id r)) \<noteq> None" by simp
  from Cons.IH [OF this] show ?case
    by (simp add: joined_def map_filter_simps n)
qed

lemma set_joined:
  "set (joined um df) =
     {\<lparr>user_no = n, base = r\<lparr>student_id := strip (student_id r)\<rparr>\<rparr> | r n.
        r \<in> set df \<and> map_of um (strip (student_id r)) = Some n}"
  by (induction df) (auto simp: joined_def map_filter_simps split: option.splits)

lemma join_unmapped:
  assumes "\<exists>r \<in> set df. map_of um (strip (student_id r)) = None"
  shows "add_user_id_and_sort ties df um =
           \<lparr>printed = [P_reading_csv, P_adding, P_unmapped_header]
              @ map (\<lambda>r. P_unmapped (strip (student_id r)) (name r))
                  (filter (\<lambda>r. map_of um (strip (student_id r)) = None) df),
            written = None,
            raised = Some (ValueError (N_unmapped
              (length (filter (\<lambda>r. map_of um (strip (student_id r)) = None) df))))\<rparr>"
proof -
  from assms have "filter (\<lambda>r. map_of um (strip (student_id r)) = None) df \<noteq> []"
    by (auto simp: filter_empty_conv)
  then show ?thesis
    by (simp add: add_user_id_and_sort_def unmapped_rows o_def)
qed

lemma join_mapped:
  assumes "\<forall>r \<in> set df. map_of um (strip (student_id r)) \<noteq> None"
  shows "add_user_id_and_sort ties df um =
           \<lparr>printed = [P_reading_csv, P_adding, P_sorting, P_saving, P_done,
                        P_stats (length (sort_values ties user_no (joined um df)))
                          (col_min (map user_no (sort_values ties user_no (joined um df))))
                          (col_max (map user_no (sort_values ties user_no (joined um df))))],
            written = Some (sort_values ties user_no (joined um df)),
            raised = None\<rparr>"
proof -
  from assms have "filter (\<lambda>r. map_of um (strip (student_id r)) = None) df = []"
    by (auto simp: filter_empty_conv)
  then show ?thesis
    by (simp add: add_user_id_and_sort_def unmapped_rows astype_int_joined [OF assms] Let_def)
qed

lemma written_iff_mapped:
  "written (add_user_id_and_sort ties df um) = Some out_df \<longleftrightarrow>
     (\<forall>r \<in> set df. map_of um (strip (student_id r)) \<noteq> None)
     \<and> out_df = sort_values ties user_no (joined um df)"
proof (cases "\<forall>r \<in> set df. map_of um (strip (student_id r)) \<noteq> None")
  case True
  then show ?thesis by (auto simp: join_mapped)
next
  case False
  then have "\<exists>r \<in> set df. map_of um (strip (student_id r)) = None" by simp
  from join_unmapped [OF this] False show ?thesis by simp
qed

text \<open>
  When every row is resolved, the table written holds exactly the rows of the input, each
  with its user number, in ascending order of the user number, whatever the sorting routine
  does with rows of the same user number.
\<close>

lemma join_sorted_ascending:
  assumes "\<forall>r \<in> set df. map_of user_mapping (strip (student_id r)) \<noteq> None"
  shows "\<exists>rows. written (add_user_id_and_sort ties df user_mapping) = Some rows
           \<and> sorted (map user_no rows)
           \<and> mset rows = mset (joined user_mapping df)
           \<and> length (joined user_mapping df) = length df"
  using assms
  by (simp add: join_mapped sorted_sort_values mset_sort_values length_joined)

text \<open>
  Claim C3. When the trimmed student number of some row is not a key of the mapping,
  \<open>add_user_id_and_sort\<close> raises the error that counts the unmapped rows, after printing
  one line with the trimmed student number and the name for every such row, in the order of
  the table; nothing is written to the output path.
\<close>

theorem unmapped_rows_reported:
  assumes "\<exists>r \<in> set df. map_of user_mapping (strip (student_id r)) = None"
  shows "add_user_id_and_sort ties df user_mapping =
           \<lparr>printed = [P_reading_csv, P_adding, P_unmapped_header]
              @ map (\<lambda>r. P_unmapped (strip (student_id r)) (name r))
                  (filter (\<lambda>r. map_of user_mapping (strip (student_id r)) = None) df),
            written = None,
            raised = Some (ValueError (N_unmapped
              (length (filter (\<lambda>r. map_of user_mapping (strip (student_id r)) = None) df))))\<rparr>"
  using assms by (rule join_unmapped)

text \<open>
  Three rows, two of them with student numbers that the mapping does not have; the first
  has its student number between ideographic spaces and is resolved.
\<close>

theorem unmapped_rows_reported_witness:
  "(\<exists>r \<in> set [\<lparr>student_id = [0x3000] @ ascii ''S001'' @ [0x3000], name = Text (ascii ''A''),
                   e1 = NaN, e2 = NaN, e3 = NaN, rest = []\<rparr>,
                 \<lparr>student_id = ascii '' S002'', name = Text (ascii ''B''),
                   e1 = NaN, e2 = NaN, e3 = NaN, rest = []\<rparr>,
                 \<lparr>student_id = ascii ''S003'', name = NaN, e1 = NaN, e2 = NaN, e3 = NaN, rest = []\<rparr>].
       map_of [(ascii ''S001'', 1)] (strip (student_id r)) = None)
   \<and> add_user_id_and_sort input_order
        [\<lparr>student_id = [0x3000] @ ascii ''S001'' @ [0x3000], name = Text (ascii ''A''),
           e1 = NaN, e2 = NaN, e3 = NaN, rest = []\<rparr>,
         \<lparr>student_id = ascii '' S002'', name = Text (ascii ''B''),
           e1 = NaN, e2 = NaN, e3 = NaN, rest = []\<rparr>,
         \<lparr>student_id = ascii ''S003'', name = NaN, e1 = NaN, e2 = NaN, e3 = NaN, rest = []\<rparr>]
        [(ascii ''S001'', 1)]
       = \<lparr>printed = [P_reading_csv, P_adding, P_unmapped_header,
                      P_unmapped (ascii ''S002'') (Text (ascii ''B'')),
                      P_unmapped (ascii ''S003'') NaN],
          written = None,
          raised = Some (ValueError (N_unmapped 2))\<rparr>"
  using unmapped_rows_reported
    [of "[\<lparr>student_id = [0x3000] @ ascii ''S001'' @ [0x3000], name = Text (ascii ''A''),
            e1 = NaN, e2 = NaN, e3 = NaN, rest = []\<rparr>,
          \<lparr>student_id = ascii '' S002'', name = Text (ascii ''B''),
            e1 = NaN, e2 = NaN, e3 = NaN, rest = []\<rparr>,
          \<lparr>student_id = ascii ''S003'', name = NaN, e1 = NaN, e2 = NaN, e3 = NaN, rest = []\<rparr>]"
        "[(ascii ''S001'', 1)]" input_order]
  by (simp add: strip_def is_space_def ascii_def)

text \<open>
  Claim C7. Keys are trimmed by \<open>load_user_mapping\<close> and student numbers by
  \<open>add_user_id_and_sort\<close>, with the same \<open>strip\<close>. So when the mapping was accepted and
  every row's student number equals, after trimming, the trimmed key of some entry, the
  join succeeds: no error is raised and every row is written with its user number.
\<close>

theorem trimmed_identifiers_join:
  assumes "load_user_mapping set_iter data = (out, Inr user_mapping)"
    and "\<forall>r \<in> set df. \<exists>(key, info) \<in> set data. strip key = strip (student_id r)"
  shows "raised (add_user_id_and_sort ties df user_mapping) = None
       \<and> written (add_user_id_and_sort ties df user_mapping)
           = Some (sort_values ties user_no (joined user_mapping df))
       \<and> length (joined user_mapping df) = length df"
proof -
  from load_Inr [OF assms(1)]
  have clean: "errors_of data = []" and um: "user_mapping = dict_update [] (accepted data)"
    by simp_all
  from clean have "filter (\<lambda>(key, info). \<not> rejected info) data = data"
    by (auto simp: errors_of_Nil_iff filter_id_conv)
  then have "fst ` set (accepted data) = (\<lambda>(key, info). strip key) ` set data"
    by (simp add: accepted_def image_image case_prod_unfold)
  then have keys: "fst ` set user_mapping = (\<lambda>(key, info). strip key) ` set data"
    by (simp add: um keys_dict_update)
  have mapped: "\<forall>r \<in> set df. map_of user_mapping (strip (student_id r)) \<noteq> None"
  proof
    fix r assume "r \<in> set df"
    with assms(2) obtain key info where "(key, info) \<in> set data" "strip key = strip (student_id r)"
      by blast
    then have "strip (student_id r) \<in> (\<lambda>(key, info). strip key) ` set data" by force
    then have "strip (student_id r) \<in> fst ` set user_mapping" by (simp only: keys)
    then show "map_of user_mapping (strip (student_id r)) \<noteq> None"
      by (simp add: map_of_eq_None_iff)
  qed
  show ?thesis by (simp add: join_mapped [OF mapped] length_joined [OF mapped])
qed

text \<open>
  A row with the student number \<^verbatim>\<open>" S001 "\<close> joins against the key \<^verbatim>\<open>"S001"\<close>, and a
  row with \<^verbatim>\<open>S002\<close> between ideographic spaces against the key \<^verbatim>\<open>"S002 "\<close>.
\<close>

theorem trimmed_identifiers_join_witness:
  "load_user_mapping remdups
     [(ascii ''S001'', PDict [(ascii ''user_id'', PInt 2)]),
      (ascii ''S002 '', PDict [(ascii ''user_id'', PInt 1)])]
     = ([P_reading_yaml,
         P_missing [3, 4, 5, 6, 7, 8, 9, 10, 11, 12, 13, 14, 15, 16, 17, 18],
         P_recommend, P_loaded 2],
        Inr [(ascii ''S001'', 2), (ascii ''S002'', 1)])
   \<and> list_all
        (\<lambda>r. \<exists>(key, info) \<in> set [(ascii ''S001'', PDict [(ascii ''user_id'', PInt 2)]),
                                  (ascii ''S002 '', PDict [(ascii ''user_id'', PInt 1)])].
               strip key = strip (student_id r))
        [\<lparr>student_id = ascii '' S001 '', name = Text (ascii ''A''),
           e1 = NaN, e2 = NaN, e3 = NaN, rest = []\<rparr>,
         \<lparr>student_id = [0x3000] @ ascii ''S002'' @ [0x3000], name = Text (ascii ''B''),
           e1 = NaN, e2 = NaN, e3 = NaN, rest = []\<rparr>]
   \<and> raised (add_user_id_and_sort input_order
        [\<lparr>student_id = ascii '' S001 '', name = Text (ascii ''A''),
           e1 = NaN, e2 = NaN, e3 = NaN, rest = []\<rparr>,
         \<lparr>student_id = [0x3000] @ ascii ''S002'' @ [0x3000], name = Text (ascii ''B''),
           e1 = NaN, e2 = NaN, e3 = NaN, rest = []\<rparr>]
        [(ascii ''S001'', 2), (ascii ''S002'', 1)]) = None
   \<and> written (add_user_id_and_sort input_order
        [\<lparr>student_id = ascii '' S001 '', name = Text (ascii ''A''),
           e1 = NaN, e2 = NaN, e3 = NaN, rest = []\<rparr>,
         \<lparr>student_id = [0x3000] @ ascii ''S002'' @ [0x3000], name = Text (ascii ''B''),
           e1 = NaN, e2 = NaN, e3 = NaN, rest = []\<rparr>]
        [(ascii ''S001'', 2), (ascii ''S002'', 1)])
       = Some [\<lparr>user_no = 1, base = \<lparr>student_id = ascii ''S002'', name = Text (ascii ''B''),
                   e1 = NaN, e2 = NaN, e3 = NaN, rest = []\<rparr>\<rparr>,
               \<lparr>user_no = 2, base = \<lparr>student_id = ascii ''S001'', name = Text (ascii ''A''),
                   e1 = NaN, e2 = NaN, e3 = NaN, rest = []\<rparr>\<rparr>]"
proof -
  let ?data = "[(ascii ''S001'', PDict [(ascii ''user_id'', PInt 2)]),
                (ascii ''S002 '', PDict [(ascii ''user_id'', PInt 1)])]"
  let ?df = "[\<lparr>student_id = ascii '' S001 '', name = Text (ascii ''A''),
                e1 = NaN, e2 = NaN, e3 = NaN, rest = []\<rparr>,
              \<lparr>student_id = [0x3000] @ ascii ''S002'' @ [0x3000], name = Text (ascii ''B''),
                e1 = NaN, e2 = NaN, e3 = NaN, rest = []\<rparr>]"
  let ?um = "[(ascii ''S001'', 2 :: int), (ascii ''S002'', 1)]"
  let ?out = "[\<lparr>user_no = 1, base = \<lparr>student_id = ascii ''S002'', name = Text (ascii ''B''),
                   e1 = NaN, e2 = NaN, e3 = NaN, rest = []\<rparr>\<rparr>,
               \<lparr>user_no = 2, base = \<lparr>student_id = ascii ''S001'', name = Text (ascii ''A''),
                   e1 = NaN, e2 = NaN, e3 = NaN, rest = []\<rparr>\<rparr>]"
  have l: "load_user_mapping remdups ?data
     = ([P_reading_yaml,
         P_missing [3, 4, 5, 6, 7, 8, 9, 10, 11, 12, 13, 14, 15, 16, 17, 18],
         P_recommend, P_loaded 2],
        Inr ?um)"
    by (simp add: load_user_mapping_def strip_def is_space_def students_of_def upto_rec1 ascii_def)
  have k: "\<forall>r \<in> set ?df. \<exists>(key, info) \<in> set ?data. strip key = strip (student_id r)"
    by (simp add: strip_def is_space_def ascii_def)
  have k': "list_all (\<lambda>r. \<exists>(key, info) \<in> set ?data. strip key = strip (student_id r)) ?df"
    using k by (simp only: list_all_iff)
  have s: "sort_values input_order user_no (joined ?um ?df) = ?out"
    by (simp add: sort_values_def input_order_def joined_def map_filter_simps strip_def
        is_space_def ascii_def)
  from trimmed_identifiers_join [OF l k, of input_order] l k' show ?thesis
    by (simp only: s simp_thms)
qed

section \<open>Looking up the answers\<close>

lemma set_drop_duplicates: "set (drop_duplicates xs) = set xs"
  by (induction xs rule: drop_duplicates.induct) auto

lemma distinct_drop_duplicates: "distinct (drop_duplicates xs)"
  by (induction xs rule: drop_duplicates.induct) (auto simp: set_drop_duplicates)

lemma sort_drop_duplicates:
  "sort (drop_duplicates xs) = sorted_list_of_set (set xs)"
proof -
  have "sorted (sort (drop_duplicates xs))" by simp
  moreover have "distinct (sort (drop_duplicates xs))" by (simp add: distinct_drop_duplicates)
  moreover have "set (sort (drop_duplicates xs)) = set xs" by (simp add: set_drop_duplicates)
  ultimately show ?thesis
    by (metis sorted_list_of_set.idem_if_sorted_distinct)
qed

lemma lookup_none:
  assumes "\<forall>r \<in> set df. user_no r \<noteq> user_id"
  shows "get_user_responses df user_id =
           ([Q_reading_csv, Q_not_found user_id,
             Q_valid (sorted_list_of_set (user_no ` set df))], False)"
proof -
  from assms have "filter (\<lambda>r. user_no r = user_id) df = []"
    by (simp add: filter_empty_conv)
  then show ?thesis
    by (simp add: get_user_responses_def sort_drop_duplicates)
qed

lemma strip_Nil_iff: "strip s = [] \<longleftrightarrow> blank s"
proof
  assume "strip s = []"
  then have "\<forall>c \<in> set (dropWhile is_space s). is_space c"
    by (simp add: strip_def dropWhile_eq_Nil_conv)
  then have "dropWhile is_space s = []"
    by (metis hd_dropWhile hd_in_set)
  then show "blank s"
    by (simp add: blank_def list_all_iff dropWhile_eq_Nil_conv)
next
  assume "blank s"
  then have "dropWhile is_space s = []"
    by (simp add: blank_def list_all_iff dropWhile_eq_Nil_conv)
  then show "strip s = []" by (simp only: strip_def rev.simps dropWhile.simps)
qed

lemma show_response_expected: "show_response c = expected_answer c"
  by (cases c) (simp_all add: show_response_def strip_Nil_iff)

text \<open>
  Claim C8. When no row of the joined table has the user number asked for,
  \<open>get_user_responses\<close> returns \<open>False\<close> after printing that the number was not found
  and the user numbers that are in the table, each once, in ascending order.
\<close>

theorem lookup_not_found:
  assumes "\<forall>r \<in> set df. user_no r \<noteq> user_id"
  shows "get_user_responses df user_id =
           ([Q_reading_csv, Q_not_found user_id,
             Q_valid (sorted_list_of_set (user_no ` set df))], False)"
  using assms by (rule lookup_none)

text \<open>
  A table with the user numbers 3, 1 and 3, asked for 2: the valid numbers are 1 and 3.
\<close>

theorem lookup_not_found_witness:
  "list_all (\<lambda>r. user_no r \<noteq> 2)
      [\<lparr>user_no = 3, base = \<lparr>student_id = ascii ''S003'', name = NaN, e1 = NaN, e2 = NaN, e3 = NaN, rest = []\<rparr>\<rparr>,
       \<lparr>user_no = 1, base = \<lparr>student_id = ascii ''S001'', name = NaN, e1 = NaN, e2 = NaN, e3 = NaN, rest = []\<rparr>\<rparr>,
       \<lparr>user_no = 3, base = \<lparr>student_id = ascii ''S003'', name = NaN, e1 = NaN, e2 = NaN, e3 = NaN, rest = []\<rparr>\<rparr>]
   \<and> get_user_responses
        [\<lparr>user_no = 3, base = \<lparr>student_id = ascii ''S003'', name = NaN, e1 = NaN, e2 = NaN, e3 = NaN, rest = []\<rparr>\<rparr>,
         \<lparr>user_no = 1, base = \<lparr>student_id = ascii ''S001'', name = NaN, e1 = NaN, e2 = NaN, e3 = NaN, rest = []\<rparr>\<rparr>,
         \<lparr>user_no = 3, base = \<lparr>student_id = ascii ''S003'', name = NaN, e1 = NaN, e2 = NaN, e3 = NaN, rest = []\<rparr>\<rparr>]
        2
       = ([Q_reading_csv, Q_not_found 2, Q_valid [1, 3]], False)"
proof -
  let ?df = "[\<lparr>user_no = 3, base = \<lparr>student_id = ascii ''S003'', name = NaN, e1 = NaN, e2 = NaN, e3 = NaN, rest = []\<rparr>\<rparr>,
         \<lparr>user_no = 1, base = \<lparr>student_id = ascii ''S001'', name = NaN, e1 = NaN, e2 = NaN, e3 = NaN, rest = []\<rparr>\<rparr>,
         \<lparr>user_no = 3, base = \<lparr>student_id = ascii ''S003'', name = NaN, e1 = NaN, e2 = NaN, e3 = NaN, rest = []\<rparr>\<rparr>]"
  have h: "\<forall>r \<in> set ?df. user_no r \<noteq> 2" by simp
  have v: "sorted_list_of_set (user_no ` set ?df) = [1, 3]"
  proof -
    have "user_no ` set ?df = set [3, 1, 3]" by simp
    then have "sorted_list_of_set (user_no ` set ?df) = sort (remdups [3, 1, 3])"
      by (simp only: sorted_list_of_set_sort_remdups)
    then show ?thesis by simp
  qed
  from lookup_not_found [OF h]
  have "get_user_responses ?df 2 = ([Q_reading_csv, Q_not_found 2, Q_valid [1, 3]], False)"
    by (simp only: v)
  moreover have "list_all (\<lambda>r. user_no r \<noteq> 2) ?df" by simp
  ultimately show ?thesis by (simp only: simp_thms)
qed

text \<open>
  Claim C5, amended. Let the join succeed and write the table \<open>out_df\<close>. If the mapping
  resolves the trimmed student number of some row of the input to \<open>uid\<close>, the lookup of
  \<open>uid\<close> in \<open>out_df\<close> succeeds and shows the name, the trimmed student number and the
  three answers of such a row \<open>r\<close> (of the only one, when there is one): an answer that is
  a text and not blank as it is in \<open>r\<close>, a missing or blank answer as the placeholder for no
  answer. If the mapping resolves no row to \<open>uid\<close>, as for an identifier of the mapping
  whose student has no row in the table, the lookup reports that \<open>uid\<close> was not found.
\<close>

theorem join_then_lookup:
  assumes wr: "written (add_user_id_and_sort ties df user_mapping) = Some out_df"
  shows "if \<exists>r \<in> set df. map_of user_mapping (strip (student_id r)) = Some uid
         then \<exists>r \<in> set df. map_of user_mapping (strip (student_id r)) = Some uid
                \<and> get_user_responses out_df uid =
                      ([Q_reading_csv, Q_rule, Q_user uid, Q_name (name r),
                        Q_student_id (strip (student_id r)), Q_rule,
                        Q_question 1, Q_dash, expected_answer (e1 r),
                        Q_question 2, Q_dash, expected_answer (e2 r),
                        Q_question 3, Q_dash, expected_answer (e3 r),
                        Q_rule], True)
         else get_user_responses out_df uid =
                ([Q_reading_csv, Q_not_found uid,
                  Q_valid (sorted_list_of_set (user_no ` set out_df))], False)"
proof -
  from wr have f: "out_df = sort_values ties user_no (joined user_mapping df)"
    by (simp add: written_iff_mapped)
  have sf: "set out_df = set (joined user_mapping df)"
    by (simp add: f set_sort_values)
  show ?thesis
  proof (cases "\<exists>r \<in> set df. map_of user_mapping (strip (student_id r)) = Some uid")
    case True
    then obtain r where r: "r \<in> set df" "map_of user_mapping (strip (student_id r)) = Some uid"
      by blast
    let ?hits = "filter (\<lambda>x. user_no x = uid) out_df"
    have "\<lparr>user_no = uid, base = r\<lparr>student_id := strip (student_id r)\<rparr>\<rparr> \<in> set out_df"
      using r by (auto simp: sf set_joined)
    then have "\<lparr>user_no = uid, base = r\<lparr>student_id := strip (student_id r)\<rparr>\<rparr> \<in> set ?hits"
      by simp
    then obtain row others where hits: "?hits = row # others"
      by (cases ?hits) auto
    then have "row \<in> set ?hits" by simp
    then have "row \<in> set out_df" and no: "user_no row = uid" by simp_all
    then obtain r' n where r': "r' \<in> set df" "map_of user_mapping (strip (student_id r')) = Some n"
      and row: "row = \<lparr>user_no = n, base = r'\<lparr>student_id := strip (student_id r')\<rparr>\<rparr>"
      by (auto simp: sf set_joined)
    from no row have n: "n = uid" by simp
    have g: "get_user_responses out_df uid =
            ([Q_reading_csv, Q_rule, Q_user uid, Q_name (name r'),
              Q_student_id (strip (student_id r')), Q_rule,
              Q_question 1, Q_dash, expected_answer (e1 r'),
              Q_question 2, Q_dash, expected_answer (e2 r'),
              Q_question 3, Q_dash, expected_answer (e3 r'),
              Q_rule], True)"
      using hits by (simp add: get_user_responses_def row show_response_expected)
    from r' n g have "\<exists>r \<in> set df. map_of user_mapping (strip (student_id r)) = Some uid
                \<and> get_user_responses out_df uid =
                      ([Q_reading_csv, Q_rule, Q_user uid, Q_name (name r),
                        Q_student_id (strip (student_id r)), Q_rule,
                        Q_question 1, Q_dash, expected_answer (e1 r),
                        Q_question 2, Q_dash, expected_answer (e2 r),
                        Q_question 3, Q_dash, expected_answer (e3 r),
                        Q_rule], True)"
      by blast
    with True show ?thesis by (simp only: if_True)
  next
    case False
    have "\<forall>x \<in> set out_df. user_no x \<noteq> uid"
    proof
      fix x assume "x \<in> set out_df"
      then obtain r' n where "r' \<in> set df" "map_of user_mapping (strip (student_id r')) = Some n"
        "x = \<lparr>user_no = n, base = r'\<lparr>student_id := strip (student_id r')\<rparr>\<rparr>"
        by (auto simp: sf set_joined)
      with False show "user_no x \<noteq> uid" by auto
    qed
    from lookup_none [OF this] False show ?thesis by (simp only: if_False)
  qed
qed

text \<open>
  Two rows and a mapping of three students. The lookup of 1 shows the answers of the row
  of \<^verbatim>\<open>S001\<close> unchanged; the lookup of 2 shows the first answer of the row of \<^verbatim>\<open>S002\<close>
  and the placeholder for its missing answer and for its answer of one ideographic space;
  the lookup of 3, an identifier of the mapping with no row, fails.
\<close>

theorem join_then_lookup_witness:
  "written (add_user_id_and_sort input_order
        [\<lparr>student_id = ascii ''S002'', name = Text (ascii ''B''), e1 = Text (ascii ''fine''),
           e2 = NaN, e3 = Text [0x3000], rest = []\<rparr>,
         \<lparr>student_id = [0x3000] @ ascii ''S001 '', name = Text (ascii ''A''),
           e1 = Text (ascii ''good''), e2 = Text (ascii ''slow''), e3 = Text (ascii '' more''),
           rest = []\<rparr>]
        [(ascii ''S001'', 1), (ascii ''S002'', 2), (ascii ''S003'', 3)])
     = Some [\<lparr>user_no = 1, base = \<lparr>student_id = ascii ''S001'', name = Text (ascii ''A''),
                 e1 = Text (ascii ''good''), e2 = Text (ascii ''slow''),
                 e3 = Text (ascii '' more''), rest = []\<rparr>\<rparr>,
             \<lparr>user_no = 2, base = \<lparr>student_id = ascii ''S002'', name = Text (ascii ''B''),
                 e1 = Text (ascii ''fine''), e2 = NaN, e3 = Text [0x3000], rest = []\<rparr>\<rparr>]
   \<and> get_user_responses
        [\<lparr>user_no = 1, base = \<lparr>student_id = ascii ''S001'', name = Text (ascii ''A''),
            e1 = Text (ascii ''good''), e2 = Text (ascii ''slow''),
            e3 = Text (ascii '' more''), rest = []\<rparr>\<rparr>,
         \<lparr>user_no = 2, base = \<lparr>student_id = ascii ''S002'', name = Text (ascii ''B''),
            e1 = Text (ascii ''fine''), e2 = NaN, e3 = Text [0x3000], rest = []\<rparr>\<rparr>]
        1
     = ([Q_reading_csv, Q_rule, Q_user 1, Q_name (Text (ascii ''A'')),
         Q_student_id (ascii ''S001''), Q_rule,
         Q_question 1, Q_dash, Q_response (Text (ascii ''good'')),
         Q_question 2, Q_dash, Q_response (Text (ascii ''slow'')),
         Q_question 3, Q_dash, Q_response (Text (ascii '' more'')),
         Q_rule], True)
   \<and> get_user_responses
        [\<lparr>user_no = 1, base = \<lparr>student_id = ascii ''S001'', name = Text (ascii ''A''),
            e1 = Text (ascii ''good''), e2 = Text (ascii ''slow''),
            e3 = Text (ascii '' more''), rest = []\<rparr>\<rparr>,
         \<lparr>user_no = 2, base = \<lparr>student_id = ascii ''S002'', name = Text (ascii ''B''),
            e1 = Text (ascii ''fine''), e2 = NaN, e3 = Text [0x3000], rest = []\<rparr>\<rparr>]
        2
     = ([Q_reading_csv, Q_rule, Q_user 2, Q_name (Text (ascii ''B'')),
         Q_student_id (ascii ''S002''), Q_rule,
         Q_question 1, Q_dash, Q_response (Text (ascii ''fine'')),
         Q_question 2, Q_dash, Q_no_response,
         Q_question 3, Q_dash, Q_no_response,
         Q_rule], True)
   \<and> get_user_responses
        [\<lparr>user_no = 1, base = \<lparr>student_id = ascii ''S001'', name = Text (ascii ''A''),
            e1 = Text (ascii ''good''), e2 = Text (ascii ''slow''),
            e3 = Text (ascii '' more''), rest = []\<rparr>\<rparr>,
         \<lparr>user_no = 2, base = \<lparr>student_id = ascii ''S002'', name = Text (ascii ''B''),
            e1 = Text (ascii ''fine''), e2 = NaN, e3 = Text [0x3000], rest = []\<rparr>\<rparr>]
        3
     = ([Q_reading_csv, Q_not_found 3, Q_valid [1, 2]], False)"
proof -
  let ?r1 = "\<lparr>student_id = [0x3000] @ ascii ''S001 '', name = Text (ascii ''A''),
           e1 = Text (ascii ''good''), e2 = Text (ascii ''slow''), e3 = Text (ascii '' more''),
           rest = []\<rparr>"
  let ?r2 = "\<lparr>student_id = ascii ''S002'', name = Text (ascii ''B''), e1 = Text (ascii ''fine''),
           e2 = NaN, e3 = Text [0x3000], rest = []\<rparr>"
  let ?um = "[(ascii ''S001'', 1 :: int), (ascii ''S002'', 2), (ascii ''S003'', 3)]"
  let ?out = "[\<lparr>user_no = 1, base = \<lparr>student_id = ascii ''S001'', name = Text (ascii ''A''),
                 e1 = Text (ascii ''good''), e2 = Text (ascii ''slow''),
                 e3 = Text (ascii '' more''), rest = []\<rparr>\<rparr>,
             \<lparr>user_no = 2, base = \<lparr>student_id = ascii ''S002'', name = Text (ascii ''B''),
                 e1 = Text (ascii ''fine''), e2 = NaN, e3 = Text [0x3000], rest = []\<rparr>\<rparr>]"
  have wr: "written (add_user_id_and_sort input_order [?r2, ?r1] ?um) = Some ?out"
    by (simp add: add_user_id_and_sort_def map_column_def sort_values_def input_order_def
        strip_def is_space_def ascii_def)
  have one: "\<exists>r \<in> set [?r2, ?r1]. map_of ?um (strip (student_id r)) = Some 1"
    by (simp add: strip_def is_space_def ascii_def)
  from join_then_lookup [OF wr, of 1] one
  have "\<exists>r \<in> set [?r2, ?r1]. map_of ?um (strip (student_id r)) = Some 1
          \<and> get_user_responses ?out 1 =
                ([Q_reading_csv, Q_rule, Q_user 1, Q_name (name r),
                  Q_student_id (strip (student_id r)), Q_rule,
                  Q_question 1, Q_dash, expected_answer (e1 r),
                  Q_question 2, Q_dash, expected_answer (e2 r),
                  Q_question 3, Q_dash, expected_answer (e3 r),
                  Q_rule], True)"
    by (simp only: if_True)
  then have found: "get_user_responses ?out 1
     = ([Q_reading_csv, Q_rule, Q_user 1, Q_name (Text (ascii ''A'')),
         Q_student_id (ascii ''S001''), Q_rule,
         Q_question 1, Q_dash, Q_response (Text (ascii ''good'')),
         Q_question 2, Q_dash, Q_response (Text (ascii ''slow'')),
         Q_question 3, Q_dash, Q_response (Text (ascii '' more'')),
         Q_rule], True)"
    by (simp add: strip_def is_space_def ascii_def blank_def)
  have two: "\<exists>r \<in> set [?r2, ?r1]. map_of ?um (strip (student_id r)) = Some 2"
    by (simp add: strip_def is_space_def ascii_def)
  from join_then_lookup [OF wr, of 2] two
  have "\<exists>r \<in> set [?r2, ?r1]. map_of ?um (strip (student_id r)) = Some 2
          \<and> get_user_responses ?out 2 =
                ([Q_reading_csv, Q_rule, Q_user 2, Q_name (name r),
                  Q_student_id (strip (student_id r)), Q_rule,
                  Q_question 1, Q_dash, expected_answer (e1 r),
                  Q_question 2, Q_dash, expected_answer (e2 r),
                  Q_question 3, Q_dash, expected_answer (e3 r),
                  Q_rule], True)"
    by (simp only: if_True)
  then have blanks: "get_user_responses ?out 2
     = ([Q_reading_csv, Q_rule, Q_user 2, Q_name (Text (ascii ''B'')),
         Q_student_id (ascii ''S002''), Q_rule,
         Q_question 1, Q_dash, Q_response (Text (ascii ''fine'')),
         Q_question 2, Q_dash, Q_no_response,
         Q_question 3, Q_dash, Q_no_response,
         Q_rule], True)"
    by (simp add: strip_def is_space_def ascii_def blank_def)
  have none: "\<not> (\<exists>r \<in> set [?r2, ?r1]. map_of ?um (strip (student_id r)) = Some 3)"
    by (simp add: strip_def is_space_def ascii_def)
  have valid: "sorted_list_of_set (user_no ` set ?out) = [1, 2]"
  proof -
    have "user_no ` set ?out = set [1, 2]" by simp
    then have "sorted_list_of_set (user_no ` set ?out) = sort (remdups [1, 2])"
      by (simp only: sorted_list_of_set_sort_remdups)
    then show ?thesis by simp
  qed
  from join_then_lookup [OF wr, of 3] none
  have "get_user_responses ?out 3
      = ([Q_reading_csv, Q_not_found 3,
          Q_valid (sorted_list_of_set (user_no ` set ?out))], False)"
    by (simp only: if_False)
  then have "get_user_responses ?out 3 = ([Q_reading_csv, Q_not_found 3, Q_valid [1, 2]], False)"
    by (simp only: valid)
  with wr found blanks show ?thesis by (simp only: simp_thms)
qed

text \<open>
  As first stated, for every identifier of the validated mapping and with the answers
  unchanged, the property fails: the identifier 2 is in the mapping and the lookup does not
  find it, and the lookup of 1 shows the placeholder for the second answer, which is
  whitespace, and for the third, which is missing.
\<close>

theorem join_then_lookup_counterexample:
  "snd (load_user_mapping remdups
      [(ascii ''S001'', PDict [(ascii ''user_id'', PInt 1)]),
       (ascii ''S002'', PDict [(ascii ''user_id'', PInt 2)])])
     = Inr [(ascii ''S001'', 1), (ascii ''S002'', 2)]
   \<and> written (add_user_id_and_sort input_order
        [\<lparr>student_id = ascii ''S001'', name = Text (ascii ''A''), e1 = Text (ascii ''good''),
           e2 = Text [0x3000, 0x20], e3 = NaN, rest = []\<rparr>]
        [(ascii ''S001'', 1), (ascii ''S002'', 2)])
       = Some [\<lparr>user_no = 1, base = \<lparr>student_id = ascii ''S001'', name = Text (ascii ''A''),
                   e1 = Text (ascii ''good''), e2 = Text [0x3000, 0x20], e3 = NaN, rest = []\<rparr>\<rparr>]
   \<and> get_user_responses
        [\<lparr>user_no = 1, base = \<lparr>student_id = ascii ''S001'', name = Text (ascii ''A''),
            e1 = Text (ascii ''good''), e2 = Text [0x3000, 0x20], e3 = NaN, rest = []\<rparr>\<rparr>]
        2
       = ([Q_reading_csv, Q_not_found 2, Q_valid [1]], False)
   \<and> get_user_responses
        [\<lparr>user_no = 1, base = \<lparr>student_id = ascii ''S001'', name = Text (ascii ''A''),
            e1 = Text (ascii ''good''), e2 = Text [0x3000, 0x20], e3 = NaN, rest = []\<rparr>\<rparr>]
        1
       = ([Q_reading_csv, Q_rule, Q_user 1, Q_name (Text (ascii ''A'')),
           Q_student_id (ascii ''S001''), Q_rule,
           Q_question 1, Q_dash, Q_response (Text (ascii ''good'')),
           Q_question 2, Q_dash, Q_no_response,
           Q_question 3, Q_dash, Q_no_response,
           Q_rule], True)"
  by (simp add: load_user_mapping_def students_of_def Let_def add_user_id_and_sort_def
      map_column_def sort_values_def input_order_def get_user_responses_def show_response_def
      strip_def is_space_def ascii_def)

section \<open>Generating the template\<close>

lemma assign_ids_new:
  "distinct (map fst um @ map fst students) \<Longrightarrow>
     assign_ids students idx um =
       um @ map (\<lambda>(i, (sid, nm)). (sid, PDict [(ascii ''user_id'', PInt (idx + int i + 1)),
                                               (ascii ''name'', py_of_cell nm)]))
              (enumerate 0 students)"
proof (induction students arbitrary: idx um)
  case Nil
  show ?case by simp
next
  case (Cons p students)
  obtain sid nm where p: "p = (sid, nm)" by (cases p)
  let ?e = "(sid, PDict [(ascii ''user_id'', PInt (idx + 1)), (ascii ''name'', py_of_cell nm)])"
  from Cons.prems have new: "sid \<notin> fst ` set um" by (auto simp: p)
  from Cons.prems have "distinct (map fst (um @ [?e]) @ map fst students)" by (simp add: p)
  from Cons.IH [OF this, of "idx + 1"] show ?case
    by (simp add: p dict_set_new [OF new] enumerate_Suc_eq o_def case_prod_unfold add.assoc)
qed

text \<open>
  When no student number occurs with two names, the template has one entry for each
  trimmed student number, in ascending order of the student numbers, numbered from 1.
\<close>

lemma template_numbers_distinct_identifiers:
  assumes one_name:
    "distinct (map fst (drop_duplicates (map (\<lambda>r. (strip (student_id r), name r)) df)))"
  shows "\<exists>students.
           generate_template ties df =
             ([G_reading_csv, G_extracted (length students), G_generating, G_done, G_next_steps],
              Some (map (\<lambda>(i, (sid, nm)). (sid, PDict [(ascii ''user_id'', PInt (int i + 1)),
                                                       (ascii ''name'', py_of_cell nm)]))
                     (enumerate 0 students)),
              True)
           \<and> sorted (map fst students) \<and> distinct (map fst students)
           \<and> set students = set (map (\<lambda>r. (strip (student_id r), name r)) df)"
proof -
  let ?pairs = "drop_duplicates (map (\<lambda>r. (strip (student_id r), name r)) df)"
  let ?students = "sort_values ties fst ?pairs"
  have m: "mset ?students = mset ?pairs" by (rule mset_sort_values)
  have s: "sorted (map fst ?students)" by (rule sorted_sort_values)
  from m have "mset (map fst ?students) = mset (map fst ?pairs)" by (simp only: mset_map)
  from mset_eq_imp_distinct_iff [OF this] one_name
  have d: "distinct (map fst ?students)" by blast
  have st: "set ?students = set (map (\<lambda>r. (strip (student_id r), name r)) df)"
    using mset_eq_setD [OF m] by (simp add: set_drop_duplicates)
  have "assign_ids ?students 0 [] =
      map (\<lambda>(i, (sid, nm)). (sid, PDict [(ascii ''user_id'', PInt (int i + 1)),
                                        (ascii ''name'', py_of_cell nm)]))
        (enumerate 0 ?students)"
    using assign_ids_new [of "[]" ?students 0] d by simp
  then have "generate_template ties df =
             ([G_reading_csv, G_extracted (length ?students), G_generating, G_done, G_next_steps],
              Some (map (\<lambda>(i, (sid, nm)). (sid, PDict [(ascii ''user_id'', PInt (int i + 1)),
                                                       (ascii ''name'', py_of_cell nm)]))
                     (enumerate 0 ?students)),
              True)"
    by (simp add: generate_template_def Let_def o_def)
  with s d st show ?thesis by blast
qed

text \<open>
  Claim C9. \<open>generate_template\<close> removes duplicates among the pairs of student number and
  name, not among the student numbers. A student number that occurs with two names (here
  \<^verbatim>\<open>"A"\<close> and \<^verbatim>\<open>"A "\<close>) stays twice, is counted twice in the message on the student
  numbers extracted, and takes two of the numbers handed out; the dictionary then keeps one
  entry for it, with the later number. The template below has the user numbers 2 and 3 and
  none with 1, in whichever order the two rows of \<^verbatim>\<open>S001\<close> are sorted; with the rows in
  the order of the table the name kept is \<^verbatim>\<open>"A "\<close>.
\<close>

theorem template_skips_identifier:
  "generate_template input_order
        [\<lparr>student_id = ascii ''S002'', name = Text (ascii ''B''),
           e1 = NaN, e2 = NaN, e3 = NaN, rest = []\<rparr>,
         \<lparr>student_id = ascii ''S001'', name = Text (ascii ''A''),
           e1 = NaN, e2 = NaN, e3 = NaN, rest = []\<rparr>,
         \<lparr>student_id = ascii ''S001'', name = Text (ascii ''A ''),
           e1 = NaN, e2 = NaN, e3 = NaN, rest = []\<rparr>]
     = ([G_reading_csv, G_extracted 3, G_generating, G_done, G_next_steps],
        Some [(ascii ''S001'', PDict [(ascii ''user_id'', PInt 2), (ascii ''name'', PStr (ascii ''A ''))]),
              (ascii ''S002'', PDict [(ascii ''user_id'', PInt 3), (ascii ''name'', PStr (ascii ''B''))])],
        True)
   \<and> fst (generate_template ties
        [\<lparr>student_id = ascii ''S002'', name = Text (ascii ''B''),
           e1 = NaN, e2 = NaN, e3 = NaN, rest = []\<rparr>,
         \<lparr>student_id = ascii ''S001'', name = Text (ascii ''A''),
           e1 = NaN, e2 = NaN, e3 = NaN, rest = []\<rparr>,
         \<lparr>student_id = ascii ''S001'', name = Text (ascii ''A ''),
           e1 = NaN, e2 = NaN, e3 = NaN, rest = []\<rparr>])
     = [G_reading_csv, G_extracted 3, G_generating, G_done, G_next_steps]
   \<and> map_option (map (\<lambda>(sid, info). (sid, dict_get info (ascii ''user_id''))))
        (fst (snd (generate_template ties
          [\<lparr>student_id = ascii ''S002'', name = Text (ascii ''B''),
             e1 = NaN, e2 = NaN, e3 = NaN, rest = []\<rparr>,
           \<lparr>student_id = ascii ''S001'', name = Text (ascii ''A''),
             e1 = NaN, e2 = NaN, e3 = NaN, rest = []\<rparr>,
           \<lparr>student_id = ascii ''S001'', name = Text (ascii ''A ''),
             e1 = NaN, e2 = NaN, e3 = NaN, rest = []\<rparr>])))
     = Some [(ascii ''S001'', PInt 2), (ascii ''S002'', PInt 3)]"
  by (simp add: generate_template_def sort_values_def input_order_def strip_def is_space_def
      ascii_def less_eq_prod_def)

end
